theory Spec2Isabelle
  imports Complex_Main "HOL-Library.AList"
begin

section \<open>Host strings\<close>

text \<open>
  The interpreter of \<^verbatim>\<open>tiny_basic.py\<close> works on Python strings. They are modelled as
  \<^typ>\<open>string\<close>, read as ASCII text; the helpers below are the string methods and the
  regular expressions the source uses, each written out for ASCII.
\<close>

definition is_space :: "char \<Rightarrow> bool" where
  \<comment> \<open>\<^verbatim>\<open>str.isspace\<close> and the regex class \<^verbatim>\<open>\s\<close> on ASCII: TAB, LF, VT, FF, CR, FS, GS, RS, US, SPACE\<close>
  "is_space c = (let n = (of_char c :: nat) in (9 \<le> n \<and> n \<le> 13) \<or> (28 \<le> n \<and> n \<le> 32))"

definition is_digit :: "char \<Rightarrow> bool" where
  "is_digit c = (let n = (of_char c :: nat) in 48 \<le> n \<and> n \<le> 57)"

definition is_upper_letter :: "char \<Rightarrow> bool" where
  \<comment> \<open>the regex class \<^verbatim>\<open>[A-Z]\<close>\<close>
  "is_upper_letter c = (let n = (of_char c :: nat) in 65 \<le> n \<and> n \<le> 90)"

definition to_upper :: "char \<Rightarrow> char" where
  "to_upper c = (let n = (of_char c :: nat) in if 97 \<le> n \<and> n \<le> 122 then char_of (n - 32) else c)"

definition py_upper :: "string \<Rightarrow> string" where
  \<comment> \<open>\<^verbatim>\<open>s.upper()\<close>\<close>
  "py_upper s = map to_upper s"

definition py_strip :: "string \<Rightarrow> string" where
  \<comment> \<open>\<^verbatim>\<open>s.strip()\<close>\<close>
  "py_strip s = rev (dropWhile is_space (rev (dropWhile is_space s)))"

definition split_maxsplit1 :: "string \<Rightarrow> string list" where
  \<comment> \<open>\<^verbatim>\<open>s.split(maxsplit=1)\<close>: the first word, and the remainder after the run of
      whitespace that follows it (trailing whitespace of the remainder is kept)\<close>
  "split_maxsplit1 s =
     (let s1 = dropWhile is_space s in
      if s1 = [] then []
      else let w = takeWhile (\<lambda>c. \<not> is_space c) s1;
               r = dropWhile is_space (dropWhile (\<lambda>c. \<not> is_space c) s1)
           in if r = [] then [w] else [w, r])"

fun split_char :: "char \<Rightarrow> string \<Rightarrow> (string \<times> string) option" where
  \<comment> \<open>\<^verbatim>\<open>s.split(c, 1)\<close> for a one-character separator: \<open>None\<close> when \<open>c\<close> does not occur\<close>
  "split_char c [] = None"
| "split_char c (x # xs) =
     (if x = c then Some ([], xs)
      else (case split_char c xs of None \<Rightarrow> None | Some (l, r) \<Rightarrow> Some (x # l, r)))"

fun split_sub :: "string \<Rightarrow> string \<Rightarrow> (string \<times> string) option" where
  \<comment> \<open>\<^verbatim>\<open>s.split(op, 1)\<close> guarded by \<^verbatim>\<open>op in s\<close>: split at the first occurrence of \<open>op\<close>\<close>
  "split_sub op [] = (if op = [] then Some ([], []) else None)"
| "split_sub op (x # xs) =
     (if take (length op) (x # xs) = op then Some ([], drop (length op) (x # xs))
      else (case split_sub op xs of None \<Rightarrow> None | Some (l, r) \<Rightarrow> Some (x # l, r)))"

definition digit_char :: "nat \<Rightarrow> char" where
  "digit_char d = char_of (48 + d)"

fun show_nat :: "nat \<Rightarrow> string" where
  "show_nat n = (if n < 10 then [digit_char n] else show_nat (n div 10) @ [digit_char (n mod 10)])"

declare show_nat.simps [simp del]

definition show_int :: "int \<Rightarrow> string" where
  \<comment> \<open>\<^verbatim>\<open>str(n)\<close>, as \<^verbatim>\<open>print\<close> and the f-strings render an integer\<close>
  "show_int i = (if i < 0 then CHR ''-'' # show_nat (nat (- i)) else show_nat (nat i))"

definition digit_val :: "char \<Rightarrow> nat" where
  "digit_val c = of_char c - 48"

definition digits_val :: "string \<Rightarrow> nat" where
  \<comment> \<open>\<^verbatim>\<open>int(ds)\<close> on a run of decimal digits\<close>
  "digits_val ds = foldl (\<lambda>a c. 10 * a + digit_val c) 0 ds"

fun index_of :: "'a list \<Rightarrow> 'a \<Rightarrow> nat option" where
  \<comment> \<open>\<^verbatim>\<open>xs.index(x)\<close>; \<open>None\<close> stands for the \<^verbatim>\<open>ValueError\<close>\<close>
  "index_of [] x = None"
| "index_of (y # ys) x = (if y = x then Some 0 else map_option Suc (index_of ys x))"

section \<open>Expressions: the fragment of the host's \<^verbatim>\<open>eval\<close> that is modelled\<close>

text \<open>
  \<^verbatim>\<open>eval_expression\<close> upper-cases the text, replaces every \<^verbatim>\<open>/\<close> by \<^verbatim>\<open>//\<close> and hands
  it to Python's \<^verbatim>\<open>eval\<close> with the 26 letters as the only names. The model covers the
  expressions built from decimal literals, letters, \<^verbatim>\<open>letter(expr)\<close>, parentheses, unary
  minus and the binary operators \<^verbatim>\<open>+ - * //\<close>, with Python's precedence and evaluation
  order. A text outside this fragment is handed to a parameter \<open>ext\<close>, which stands for
  whatever the host does with it; every theorem holds for every \<open>ext\<close>. Integers are
  unbounded, as Python's are.
\<close>

datatype token = TNum nat | TName char | TPlus | TMinus | TStar | TFloorDiv | TLParen | TRParen

function lex :: "string \<Rightarrow> token list option" where
  "lex [] = Some []"
| "lex (c # cs) =
     (if c = CHR '' '' then lex cs
      else if is_digit c then
        (let ds = c # takeWhile is_digit cs; rest = dropWhile is_digit cs in
         if c = CHR ''0'' \<and> filter (\<lambda>d. d \<noteq> CHR ''0'') ds \<noteq> [] then None
         else if rest \<noteq> [] \<and> is_upper_letter (hd rest) then None
         else map_option ((#) (TNum (digits_val ds))) (lex rest))
      else if is_upper_letter c then
        (if cs \<noteq> [] \<and> (is_upper_letter (hd cs) \<or> is_digit (hd cs)) then None
         else map_option ((#) (TName c)) (lex cs))
      else if c = CHR ''+'' then map_option ((#) TPlus) (lex cs)
      else if c = CHR ''-'' then map_option ((#) TMinus) (lex cs)
      else if c = CHR ''*'' then map_option ((#) TStar) (lex cs)
      else if c = CHR ''('' then map_option ((#) TLParen) (lex cs)
      else if c = CHR '')'' then map_option ((#) TRParen) (lex cs)
      else if c = CHR ''/'' then
        (case cs of [] \<Rightarrow> None
         | d # cs' \<Rightarrow> if d = CHR ''/'' then map_option ((#) TFloorDiv) (lex cs') else None)
      else None)"
  by pat_completeness auto
termination
  by (relation "measure length") (auto simp: less_Suc_eq_le length_dropWhile_le)

datatype binop = Add | Sub | Mul | FloorDiv

datatype expr = Num int | Var char | Call char expr | Neg expr | BinOp binop expr expr

text \<open>
  Recursive descent over Python's grammar for the fragment: \<open>sum\<close>, \<open>term\<close>, \<open>factor\<close>,
  \<open>atom\<close>, the binary operators associating to the left. The first argument bounds the
  depth of the descent; a text the bound is too small for counts as outside the fragment.
\<close>

function parse_sum :: "nat \<Rightarrow> token list \<Rightarrow> (expr \<times> token list) option"
  and sum_rest :: "nat \<Rightarrow> expr \<Rightarrow> token list \<Rightarrow> (expr \<times> token list) option"
  and parse_term :: "nat \<Rightarrow> token list \<Rightarrow> (expr \<times> token list) option"
  and term_rest :: "nat \<Rightarrow> expr \<Rightarrow> token list \<Rightarrow> (expr \<times> token list) option"
  and parse_factor :: "nat \<Rightarrow> token list \<Rightarrow> (expr \<times> token list) option"
  and parse_atom :: "nat \<Rightarrow> token list \<Rightarrow> (expr \<times> token list) option"
where
  "parse_sum 0 ts = None"
| "parse_sum (Suc n) ts =
     (case parse_term n ts of None \<Rightarrow> None | Some (l, r) \<Rightarrow> sum_rest n l r)"
| "sum_rest 0 l ts = None"
| "sum_rest (Suc n) l ts =
     (case ts of
        TPlus # r \<Rightarrow>
          (case parse_term n r of None \<Rightarrow> None | Some (e, r') \<Rightarrow> sum_rest n (BinOp Add l e) r')
      | TMinus # r \<Rightarrow>
          (case parse_term n r of None \<Rightarrow> None | Some (e, r') \<Rightarrow> sum_rest n (BinOp Sub l e) r')
      | _ \<Rightarrow> Some (l, ts))"
| "parse_term 0 ts = None"
| "parse_term (Suc n) ts =
     (case parse_factor n ts of None \<Rightarrow> None | Some (l, r) \<Rightarrow> term_rest n l r)"
| "term_rest 0 l ts = None"
| "term_rest (Suc n) l ts =
     (case ts of
        TStar # r \<Rightarrow>
          (case parse_factor n r of None \<Rightarrow> None | Some (e, r') \<Rightarrow> term_rest n (BinOp Mul l e) r')
      | TFloorDiv # r \<Rightarrow>
          (case parse_factor n r of None \<Rightarrow> None
           | Some (e, r') \<Rightarrow> term_rest n (BinOp FloorDiv l e) r')
      | _ \<Rightarrow> Some (l, ts))"
| "parse_factor 0 ts = None"
| "parse_factor (Suc n) ts =
     (case ts of
        TMinus # r \<Rightarrow> (case parse_factor n r of None \<Rightarrow> None | Some (e, r') \<Rightarrow> Some (Neg e, r'))
      | _ \<Rightarrow> parse_atom n ts)"
| "parse_atom 0 ts = None"
| "parse_atom (Suc n) ts =
     (case ts of
        TNum k # r \<Rightarrow> Some (Num (int k), r)
      | TName c # TLParen # r \<Rightarrow>
          (case parse_sum n r of
             Some (e, TRParen # r') \<Rightarrow> Some (Call c e, r')
           | _ \<Rightarrow> None)
      | TName c # r \<Rightarrow> Some (Var c, r)
      | TLParen # r \<Rightarrow>
          (case parse_sum n r of
             Some (e, TRParen # r') \<Rightarrow> Some (e, r')
           | _ \<Rightarrow> None)
      | _ \<Rightarrow> None)"
  by pat_completeness auto
termination
  by (relation "measure (case_sum
         (case_sum (\<lambda>(n, x). n) (case_sum (\<lambda>(n, x). n) (\<lambda>(n, x). n)))
         (case_sum (\<lambda>(n, x). n) (case_sum (\<lambda>(n, x). n) (\<lambda>(n, x). n))))")
     auto

definition parse :: "token list \<Rightarrow> expr option" where
  \<comment> \<open>the whole token list must be one expression\<close>
  "parse ts = (case parse_sum (6 * length ts + 6) ts of Some (e, []) \<Rightarrow> Some e | _ \<Rightarrow> None)"

section \<open>Evaluation\<close>

datatype pyval = IntVal int | FuncVal char "int list"
  \<comment> \<open>what a letter is bound to in \<^verbatim>\<open>local_vars\<close>: the scalar's value, or the
      \<^verbatim>\<open>array_accessor\<close> closure of an array (its name and the list it reads)\<close>

datatype py_exn =
    TypeError
  | ZeroDivisionError
  | NameError
  | IndexOutOfBounds char  \<comment> \<open>\<^verbatim>\<open>RuntimeError("Index out of bounds for n")\<close>, raised by the accessor\<close>
  | HostError string       \<comment> \<open>any exception of the host outside the modelled fragment\<close>

type_synonym host_eval = "string \<Rightarrow> (char \<rightharpoonup> pyval) \<Rightarrow> py_exn + int"

definition array_accessor :: "char \<Rightarrow> int list \<Rightarrow> pyval \<Rightarrow> py_exn + pyval" where
  \<comment> \<open>\<^verbatim>\<open>self.arrays[n][int(idx)]\<close>: a Python list index, so an index in \<open>[-len, 0)\<close> counts
      from the end; only an \<^verbatim>\<open>IndexError\<close> becomes the accessor's own error\<close>
  "array_accessor n xs idx =
     (case idx of
        FuncVal _ _ \<Rightarrow> Inl TypeError
      | IntVal i \<Rightarrow>
          (let len = int (length xs) in
           if 0 \<le> i \<and> i < len then Inr (IntVal (xs ! nat i))
           else if - len \<le> i \<and> i < 0 then Inr (IntVal (xs ! nat (len + i)))
           else Inl (IndexOutOfBounds n)))"

definition py_binop :: "binop \<Rightarrow> pyval \<Rightarrow> pyval \<Rightarrow> py_exn + pyval" where
  "py_binop op a b =
     (case (a, b) of
        (IntVal x, IntVal y) \<Rightarrow>
          (case op of
             Add \<Rightarrow> Inr (IntVal (x + y))
           | Sub \<Rightarrow> Inr (IntVal (x - y))
           | Mul \<Rightarrow> Inr (IntVal (x * y))
           | FloorDiv \<Rightarrow> if y = 0 then Inl ZeroDivisionError else Inr (IntVal (x div y)))
      | _ \<Rightarrow> Inl TypeError)"

fun eval_ast :: "(char \<rightharpoonup> pyval) \<Rightarrow> expr \<Rightarrow> py_exn + pyval" where
  "eval_ast lv (Num k) = Inr (IntVal k)"
| "eval_ast lv (Var c) = (case lv c of None \<Rightarrow> Inl NameError | Some v \<Rightarrow> Inr v)"
| "eval_ast lv (Neg e) =
     (case eval_ast lv e of
        Inl x \<Rightarrow> Inl x
      | Inr (IntVal k) \<Rightarrow> Inr (IntVal (- k))
      | Inr (FuncVal _ _) \<Rightarrow> Inl TypeError)"
| "eval_ast lv (BinOp op a b) =
     (case eval_ast lv a of
        Inl x \<Rightarrow> Inl x
      | Inr va \<Rightarrow> (case eval_ast lv b of Inl x \<Rightarrow> Inl x | Inr vb \<Rightarrow> py_binop op va vb))"
| "eval_ast lv (Call c e) =
     (case lv c of
        None \<Rightarrow> Inl NameError
      | Some f \<Rightarrow>
          (case eval_ast lv e of
             Inl x \<Rightarrow> Inl x
           | Inr v \<Rightarrow> (case f of IntVal _ \<Rightarrow> Inl TypeError | FuncVal n xs \<Rightarrow> array_accessor n xs v)))"

section \<open>The interpreter's state\<close>

datatype error =
    ExpressionError string py_exn   \<comment> \<open>\<^verbatim>\<open>"Expression error '{expr_str}': {e}"\<close>\<close>
  | ArrayIndexOutOfBounds char int  \<comment> \<open>\<^verbatim>\<open>"Array index out of bounds: {name}({idx})"\<close>\<close>
  | ArrayNotDefined char            \<comment> \<open>\<^verbatim>\<open>"Array not defined: {name}"\<close>\<close>
  | InvalidVariableName string      \<comment> \<open>\<^verbatim>\<open>"Invalid variable name: {var_name}"\<close>\<close>
  | DimSyntax                       \<comment> \<open>\<^verbatim>\<open>"Syntax error: DIM A(size)"\<close>\<close>
  | InvalidCondition                \<comment> \<open>\<^verbatim>\<open>"Invalid condition syntax"\<close>\<close>
  | GotoDirect                      \<comment> \<open>\<^verbatim>\<open>"GOTO can only be used within a program ..."\<close>\<close>
  | IfDirect                        \<comment> \<open>\<^verbatim>\<open>"IF can only be used within a program"\<close>\<close>
  | KeyError int                    \<comment> \<open>\<^verbatim>\<open>self.program[line_num]\<close> on a line that is gone\<close>
  | IndexError                      \<comment> \<open>\<^verbatim>\<open>parts[0]\<close> on a statement without a word\<close>
  | FileNotFound string             \<comment> \<open>\<^verbatim>\<open>open(filename, 'r')\<close> on a file that does not exist\<close>

datatype event =
    Out string               \<comment> \<open>a line printed with a text the source fixes\<close>
  | ErrorOnLine int error    \<comment> \<open>\<^verbatim>\<open>"Error on line {line_num}: {e}"\<close>\<close>
  | ErrorLoading error       \<comment> \<open>\<^verbatim>\<open>"Error loading: {e}"\<close>\<close>

text \<open>
  \<open>program\<close> is the dict \<^verbatim>\<open>self.program\<close>, kept as an association list in insertion
  order (\<open>AList.update\<close> is the dict's assignment, \<open>AList.delete\<close> its \<^verbatim>\<open>del\<close>).
  \<open>variables\<close> is the dict \<^verbatim>\<open>self.variables\<close>: its keys are the 26 letters from
  construction on and no operation adds or removes one, so it is a function on letters.
  \<open>printed\<close> collects what is printed. \<open>files\<close> is the file system \<^verbatim>\<open>SAVE\<close> and
  \<^verbatim>\<open>LOAD\<close> work on: a text file is the sequence of its lines.
\<close>

record interp =
  program :: "(int \<times> string) list"
  variables :: "char \<Rightarrow> int"
  arrays :: "char \<rightharpoonup> int list"
  running :: bool
  printed :: "event list"
  files :: "string \<rightharpoonup> string list"

definition init_interp :: "(string \<rightharpoonup> string list) \<Rightarrow> interp" where
  \<comment> \<open>\<^verbatim>\<open>__init__\<close>\<close>
  "init_interp fs =
     \<lparr>program = [], variables = (\<lambda>_. 0), arrays = Map.empty, running = True,
      printed = [], files = fs\<rparr>"

definition emit :: "event \<Rightarrow> interp \<Rightarrow> interp" where
  "emit e st = st\<lparr>printed := printed st @ [e]\<rparr>"

datatype outcome = Done interp | Raised error interp
  \<comment> \<open>a call returns, or raises with the state as the exception leaves it\<close>

definition local_vars :: "interp \<Rightarrow> char \<rightharpoonup> pyval" where
  "local_vars st =
     (\<lambda>c. if is_upper_letter c then
             (case arrays st c of
                Some xs \<Rightarrow> Some (FuncVal c xs)
              | None \<Rightarrow> Some (IntVal (variables st c)))
           else None)"

definition replace_slash :: "string \<Rightarrow> string" where
  \<comment> \<open>\<^verbatim>\<open>expr_str.replace('/', '//')\<close>\<close>
  "replace_slash s = concat (map (\<lambda>c. if c = CHR ''/'' then ''//'' else [c]) s)"

definition eval_expression :: "host_eval \<Rightarrow> interp \<Rightarrow> string \<Rightarrow> error + int" where
  "eval_expression ext st expr_str =
     (let s = py_upper (py_strip expr_str) in
      if s = [] then Inr 0
      else
        let s' = replace_slash s; lv = local_vars st in
        (case Option.bind (lex s') parse of
           Some ast \<Rightarrow>
             (case eval_ast lv ast of
                Inl x \<Rightarrow> Inl (ExpressionError s' x)
              | Inr (IntVal k) \<Rightarrow> Inr k
              | Inr (FuncVal _ _) \<Rightarrow> Inl (ExpressionError s' TypeError))
         | None \<Rightarrow>
             (case ext s' lv of
                Inl x \<Rightarrow> Inl (ExpressionError s' x)
              | Inr k \<Rightarrow> Inr k)))"

definition cond_ops :: "string list" where
  "cond_ops = [''>='', ''<='', ''<>'', ''>'', ''<'', ''='']"

definition compare :: "string \<Rightarrow> int \<Rightarrow> int \<Rightarrow> bool" where
  "compare op l r =
     (if op = ''>='' then l \<ge> r
      else if op = ''<='' then l \<le> r
      else if op = ''<>'' then l \<noteq> r
      else if op = ''>'' then l > r
      else if op = ''<'' then l < r
      else l = r)"

fun eval_condition_ops :: "host_eval \<Rightarrow> interp \<Rightarrow> string list \<Rightarrow> string \<Rightarrow> error + bool" where
  "eval_condition_ops ext st [] s = Inl InvalidCondition"
| "eval_condition_ops ext st (op # ops) s =
     (case split_sub op s of
        None \<Rightarrow> eval_condition_ops ext st ops s
      | Some (left, right) \<Rightarrow>
          (case eval_expression ext st left of
             Inl e \<Rightarrow> Inl e
           | Inr lval \<Rightarrow>
               (case eval_expression ext st right of
                  Inl e \<Rightarrow> Inl e
                | Inr rval \<Rightarrow> Inr (compare op lval rval))))"

definition eval_condition :: "host_eval \<Rightarrow> interp \<Rightarrow> string \<Rightarrow> error + bool" where
  "eval_condition ext st condition_str = eval_condition_ops ext st cond_ops condition_str"

section \<open>The regular expressions of the source\<close>

definition dollar_body :: "string \<Rightarrow> string" where
  \<comment> \<open>\<^verbatim>\<open>$\<close> matches at the end and before a final newline\<close>
  "dollar_body s = (if s \<noteq> [] \<and> last s = CHR 0x0A then butlast s else s)"

definition match_array_ref :: "string \<Rightarrow> (char \<times> string) option" where
  \<comment> \<open>\<^verbatim>\<open>re.match(r'^([A-Z])\((.+)\)$', s)\<close>: groups 1 and 2\<close>
  "match_array_ref s =
     (case dollar_body s of
        c # p # rest \<Rightarrow>
          if is_upper_letter c \<and> p = CHR ''('' \<and> 2 \<le> length rest \<and> last rest = CHR '')''
             \<and> CHR 0x0A \<notin> set (butlast rest)
          then Some (c, butlast rest) else None
      | _ \<Rightarrow> None)"

definition match_letter :: "string \<Rightarrow> char option" where
  \<comment> \<open>\<^verbatim>\<open>re.match(r'^[A-Z]$', s)\<close>\<close>
  "match_letter s =
     (case dollar_body s of [c] \<Rightarrow> if is_upper_letter c then Some c else None | _ \<Rightarrow> None)"

definition then_tail :: "string \<Rightarrow> string option" where
  \<comment> \<open>\<^verbatim>\<open>\s+THEN\s+(.+)\<close> with \<^verbatim>\<open>re.IGNORECASE\<close>, matched at the start of \<open>s\<close>: group 2.
      The second \<^verbatim>\<open>\s+\<close> is greedy and gives characters back until \<^verbatim>\<open>.+\<close> finds one
      that is not a newline.\<close>
  "then_tail s =
     (let s1 = dropWhile is_space s in
      if s1 = s then None
      else if py_upper (take 4 s1) \<noteq> ''THEN'' then None
      else
        let s2 = drop 4 s1; ws = takeWhile is_space s2; after = dropWhile is_space s2 in
        if ws = [] then None
        else if after \<noteq> [] then Some (takeWhile (\<lambda>c. c \<noteq> CHR 0x0A) after)
        else (case dropWhile (\<lambda>c. c = CHR 0x0A) (rev (tl ws)) of
                [] \<Rightarrow> None
              | c # _ \<Rightarrow> Some [c]))"

fun if_scan :: "string \<Rightarrow> string \<Rightarrow> (string \<times> string) option" where
  \<comment> \<open>the non-greedy \<^verbatim>\<open>(.+?)\<close>: the shortest non-empty prefix, free of newlines, after
      which the rest of the pattern matches\<close>
  "if_scan acc [] = None"
| "if_scan acc (c # cs) =
     (if c = CHR 0x0A then None
      else (case then_tail cs of
              Some t \<Rightarrow> Some (acc @ [c], t)
            | None \<Rightarrow> if_scan (acc @ [c]) cs))"

definition match_if :: "string \<Rightarrow> (string \<times> string) option" where
  \<comment> \<open>\<^verbatim>\<open>re.match(r'(.+?)\s+THEN\s+(.+)', arg, re.IGNORECASE)\<close>: groups 1 and 2\<close>
  "match_if arg = if_scan [] arg"

definition match_line_number :: "string \<Rightarrow> (int \<times> string) option" where
  \<comment> \<open>\<^verbatim>\<open>re.match(r'^(\d+)\s*(.*)', line)\<close>: \<^verbatim>\<open>int(group(1))\<close> and group 2\<close>
  "match_line_number line =
     (let ds = takeWhile is_digit line in
      if ds = [] then None
      else Some (int (digits_val ds),
                 takeWhile (\<lambda>c. c \<noteq> CHR 0x0A) (dropWhile is_space (dropWhile is_digit line))))"

section \<open>Commands\<close>

definition sorted_keys :: "(int \<times> string) list \<Rightarrow> int list" where
  \<comment> \<open>\<^verbatim>\<open>sorted(self.program.keys())\<close>\<close>
  "sorted_keys p = sort (map fst p)"

definition listing :: "(int \<times> string) list \<Rightarrow> string list" where
  \<comment> \<open>\<^verbatim>\<open>f"{line_num} {self.program[line_num]}"\<close> for every key in ascending order\<close>
  "listing p =
     concat (map (\<lambda>k. case map_of p k of None \<Rightarrow> [] | Some code \<Rightarrow> [show_int k @ '' '' @ code])
                 (sorted_keys p))"

definition cmd_new :: "interp \<Rightarrow> interp" where
  "cmd_new st = st\<lparr>program := [], variables := (\<lambda>_. 0), arrays := Map.empty\<rparr>"

definition cmd_list :: "interp \<Rightarrow> interp" where
  "cmd_list st = st\<lparr>printed := printed st @ map Out (listing (program st))\<rparr>"

definition cmd_save :: "string \<Rightarrow> interp \<Rightarrow> interp" where
  \<comment> \<open>opening the file for writing is taken to succeed\<close>
  "cmd_save filename st =
     (if filename = [] then emit (Out ''Usage: SAVE filename'') st
      else emit (Out (''Saved to '' @ filename))
             (st\<lparr>files := (files st)(filename \<mapsto> map (\<lambda>l. l @ [CHR 0x0A]) (listing (program st)))\<rparr>))"

definition cmd_print :: "host_eval \<Rightarrow> string \<Rightarrow> interp \<Rightarrow> outcome" where
  "cmd_print ext arg st =
     (case eval_expression ext st arg of
        Inl e \<Rightarrow> Raised e st
      | Inr val \<Rightarrow> Done (emit (Out (show_int val)) st))"

definition cmd_let :: "host_eval \<Rightarrow> string \<Rightarrow> interp \<Rightarrow> outcome" where
  "cmd_let ext arg st =
     (case split_char CHR ''='' arg of
        None \<Rightarrow> Done (emit (Out ''Syntax error: LET var = expression'') st)
      | Some (var_part, expr_part) \<Rightarrow>
          (let var_name = py_upper (py_strip var_part) in
           case eval_expression ext st expr_part of
             Inl e \<Rightarrow> Raised e st
           | Inr val \<Rightarrow>
               (case match_array_ref var_name of
                  Some (name, idx_expr) \<Rightarrow>
                    (case eval_expression ext st idx_expr of
                       Inl e \<Rightarrow> Raised e st
                     | Inr idx \<Rightarrow>
                         (case arrays st name of
                            Some xs \<Rightarrow>
                              if 0 \<le> idx \<and> idx < int (length xs)
                              then Done (st\<lparr>arrays := (arrays st)(name \<mapsto> xs[nat idx := val])\<rparr>)
                              else Raised (ArrayIndexOutOfBounds name idx) st
                          | None \<Rightarrow> Raised (ArrayNotDefined name) st))
                | None \<Rightarrow>
                    (case match_letter var_name of
                       Some c \<Rightarrow> Done (st\<lparr>variables := (variables st)(c := val)\<rparr>)
                     | None \<Rightarrow> Raised (InvalidVariableName var_name) st))))"

definition cmd_dim :: "host_eval \<Rightarrow> string \<Rightarrow> interp \<Rightarrow> outcome" where
  "cmd_dim ext arg st =
     (case match_array_ref (py_upper (py_strip arg)) of
        Some (name, dim_expr) \<Rightarrow>
          (case eval_expression ext st dim_expr of
             Inl e \<Rightarrow> Raised e st
           | Inr sz \<Rightarrow> Done (st\<lparr>arrays := (arrays st)(name \<mapsto> replicate (nat (sz + 1)) 0)\<rparr>))
      | None \<Rightarrow> Raised DimSyntax st)"

section \<open>Dispatch and the execution engine\<close>

text \<open>
  \<^verbatim>\<open>execute_statement\<close>, \<^verbatim>\<open>execute_program\<close>, \<^verbatim>\<open>cmd_load\<close> and \<^verbatim>\<open>process_input\<close>
  call each other (a stored \<^verbatim>\<open>RUN\<close> or \<^verbatim>\<open>LOAD\<close> line, a direct statement in a loaded
  file), and a program may loop for ever. The part of each body that makes no such call is
  a definition of its own, which says what the body does next; the recursive functions
  below tie them together. The prompt loop \<^verbatim>\<open>run_interactive\<close> and the script entry are
  the driver around \<^verbatim>\<open>process_input\<close>, \<^verbatim>\<open>cmd_load\<close> and \<^verbatim>\<open>cmd_run\<close> and are not
  modelled; nor is the host's recursion limit, so a program that runs itself without end
  is a computation that does not return.
\<close>

datatype dispatch = Returns outcome | CallsRun | CallsLoad string

definition dispatch_statement :: "host_eval \<Rightarrow> string \<Rightarrow> interp \<Rightarrow> dispatch" where
  \<comment> \<open>the \<^verbatim>\<open>if\<close>/\<^verbatim>\<open>elif\<close> chain of \<^verbatim>\<open>execute_statement\<close>\<close>
  "dispatch_statement ext stmt st =
     (case split_maxsplit1 (py_strip stmt) of
        [] \<Rightarrow> Returns (Done st)
      | w # rest \<Rightarrow>
          (let command = py_upper w; arg = (case rest of [] \<Rightarrow> [] | a # _ \<Rightarrow> a) in
           if command = ''PRINT'' then Returns (cmd_print ext arg st)
           else if command = ''LET'' then Returns (cmd_let ext arg st)
           else if command = ''GOTO'' then Returns (Raised GotoDirect st)
           else if command = ''IF'' then Returns (Raised IfDirect st)
           else if command = ''DIM'' then Returns (cmd_dim ext arg st)
           else if command = ''END'' then Returns (Done st)
           else if command = ''RUN'' then CallsRun
           else if command = ''LIST'' then Returns (Done (cmd_list st))
           else if command = ''NEW'' then Returns (Done (cmd_new st))
           else if command = ''LOAD'' then CallsLoad arg
           else if command = ''SAVE'' then Returns (Done (cmd_save arg st))
           else if command = ''QUIT'' then Returns (Done (st\<lparr>running := False\<rparr>))
           else Returns (Done (emit (Out (''Unknown command: '' @ command)) st))))"

datatype step =
    Halts outcome    \<comment> \<open>\<^verbatim>\<open>break\<close>, or an exception that leaves \<^verbatim>\<open>execute_program\<close>\<close>
  | Jumps nat        \<comment> \<open>the next \<^verbatim>\<open>pc_idx\<close>, the state unchanged\<close>
  | Executes string  \<comment> \<open>\<^verbatim>\<open>self.execute_statement(stmt)\<close>, then \<^verbatim>\<open>pc_idx += 1\<close>\<close>

definition jump_to :: "int list \<Rightarrow> int \<Rightarrow> interp \<Rightarrow> step" where
  \<comment> \<open>\<^verbatim>\<open>pc_idx = lines.index(target_line); continue\<close>, or the message and \<^verbatim>\<open>break\<close>\<close>
  "jump_to lines target_line st =
     (case index_of lines target_line of
        Some i \<Rightarrow> Jumps i
      | None \<Rightarrow>
          Halts (Done (emit (Out (''Line '' @ show_int target_line @ '' not found in program.'')) st)))"

definition loop_step :: "host_eval \<Rightarrow> int list \<Rightarrow> nat \<Rightarrow> interp \<Rightarrow> step" where
  \<comment> \<open>one turn of the \<^verbatim>\<open>while\<close> loop of \<^verbatim>\<open>execute_program\<close>, for \<open>pc_idx < length lines\<close>\<close>
  "loop_step ext lines pc_idx st =
     (let line_num = lines ! pc_idx in
      case map_of (program st) line_num of
        None \<Rightarrow> Halts (Raised (KeyError line_num) st)
      | Some stmt \<Rightarrow>
          (case split_maxsplit1 (py_strip stmt) of
             [] \<Rightarrow> Halts (Raised IndexError st)
           | w # rest \<Rightarrow>
               (let command = py_upper w; arg = (case rest of [] \<Rightarrow> [] | a # _ \<Rightarrow> a) in
                if command = ''GOTO'' then
                  (case eval_expression ext st arg of
                     Inl e \<Rightarrow> Halts (Done (emit (ErrorOnLine line_num e) st))
                   | Inr target_line \<Rightarrow> jump_to lines target_line st)
                else if command = ''IF'' then
                  (case match_if arg of
                     Some (condition_str, target_str) \<Rightarrow>
                       (case eval_condition ext st condition_str of
                          Inl e \<Rightarrow> Halts (Done (emit (ErrorOnLine line_num e) st))
                        | Inr True \<Rightarrow>
                            (case eval_expression ext st target_str of
                               Inl e \<Rightarrow> Halts (Done (emit (ErrorOnLine line_num e) st))
                             | Inr target_line \<Rightarrow> jump_to lines target_line st)
                        | Inr False \<Rightarrow> Jumps (pc_idx + 1))
                   | None \<Rightarrow>
                       Halts (Done (emit (Out (''Syntax error in IF on line '' @ show_int line_num)) st)))
                else if command = ''END'' then Halts (Done st)
                else Executes stmt)))"

datatype routed = Stored interp | Direct string

definition route_input :: "string \<Rightarrow> interp \<Rightarrow> routed option" where
  \<comment> \<open>\<^verbatim>\<open>process_input\<close>: an empty line does nothing (\<open>None\<close>), a numbered line is stored or
      deleted, anything else is a direct statement\<close>
  "route_input line st =
     (let line' = py_strip line in
      if line' = [] then None
      else
        (case match_line_number line' of
           Some (line_num, rest) \<Rightarrow>
             (let code = py_strip rest in
              if code \<noteq> [] then Some (Stored (st\<lparr>program := AList.update line_num code (program st)\<rparr>))
              else Some (Stored (st\<lparr>program := AList.delete line_num (program st)\<rparr>)))
         | None \<Rightarrow> Some (Direct line')))"

text \<open>
  The first argument after \<open>ext\<close> is fuel: every call and every turn of a loop uses one
  unit, and \<open>None\<close> is a computation that has not returned within the fuel given.
\<close>

function execute_statement :: "host_eval \<Rightarrow> nat \<Rightarrow> string \<Rightarrow> interp \<Rightarrow> outcome option"
  and execute_program :: "host_eval \<Rightarrow> nat \<Rightarrow> int option \<Rightarrow> interp \<Rightarrow> outcome option"
  and run_loop :: "host_eval \<Rightarrow> nat \<Rightarrow> int list \<Rightarrow> nat \<Rightarrow> interp \<Rightarrow> outcome option"
  and cmd_load :: "host_eval \<Rightarrow> nat \<Rightarrow> string \<Rightarrow> interp \<Rightarrow> outcome option"
  and load_lines :: "host_eval \<Rightarrow> nat \<Rightarrow> string list \<Rightarrow> interp \<Rightarrow> outcome option"
  and process_input :: "host_eval \<Rightarrow> nat \<Rightarrow> string \<Rightarrow> interp \<Rightarrow> outcome option"
where
  "execute_statement ext 0 stmt st = None"
| "execute_statement ext (Suc n) stmt st =
     (case dispatch_statement ext stmt st of
        Returns r \<Rightarrow> Some r
      | CallsRun \<Rightarrow> execute_program ext n None st
      | CallsLoad filename \<Rightarrow> cmd_load ext n filename st)"
| "execute_program ext 0 start_line st = None"
| "execute_program ext (Suc n) start_line st =
     (if program st = [] then Some (Done st)
      else
        (case start_line of
           None \<Rightarrow> run_loop ext n (sorted_keys (program st)) 0 st
         | Some s \<Rightarrow>
             (case index_of (sorted_keys (program st)) s of
                Some pc_idx \<Rightarrow> run_loop ext n (sorted_keys (program st)) pc_idx st
              | None \<Rightarrow> Some (Done (emit (Out (''Line '' @ show_int s @ '' not found.'')) st)))))"
| "run_loop ext 0 lines pc_idx st = None"
| "run_loop ext (Suc n) lines pc_idx st =
     (if pc_idx < length lines then
        (case loop_step ext lines pc_idx st of
           Halts r \<Rightarrow> Some r
         | Jumps i \<Rightarrow> run_loop ext n lines i st
         | Executes stmt \<Rightarrow>
             (case execute_statement ext n stmt st of
                None \<Rightarrow> None
              | Some (Raised e st') \<Rightarrow> Some (Done (emit (ErrorOnLine (lines ! pc_idx) e) st'))
              | Some (Done st') \<Rightarrow> run_loop ext n lines (pc_idx + 1) st'))
      else Some (Done st))"
| "cmd_load ext 0 filename st = None"
| "cmd_load ext (Suc n) filename st =
     (if filename = [] then Some (Done (emit (Out ''Usage: LOAD filename'') st))
      else
        (case files st filename of
           None \<Rightarrow> Some (Done (emit (ErrorLoading (FileNotFound filename)) st))
         | Some ls \<Rightarrow>
             (case load_lines ext n ls (st\<lparr>program := []\<rparr>) of
                None \<Rightarrow> None
              | Some (Raised e st') \<Rightarrow> Some (Done (emit (ErrorLoading e) st'))
              | Some (Done st') \<Rightarrow> Some (Done (emit (Out (''Loaded '' @ filename)) st')))))"
| "load_lines ext 0 ls st = None"
| "load_lines ext (Suc n) [] st = Some (Done st)"
| "load_lines ext (Suc n) (l # ls) st =
     (case process_input ext n l st of
        None \<Rightarrow> None
      | Some (Raised e st') \<Rightarrow> Some (Raised e st')
      | Some (Done st') \<Rightarrow> load_lines ext n ls st')"
| "process_input ext 0 line st = None"
| "process_input ext (Suc n) line st =
     (case route_input line st of
        None \<Rightarrow> Some (Done st)
      | Some (Stored st') \<Rightarrow> Some (Done st')
      | Some (Direct stmt) \<Rightarrow> execute_statement ext n stmt st)"
  by pat_completeness auto
termination
  by (relation "measure (case_sum
         (case_sum (\<lambda>(ext, n, x). n) (case_sum (\<lambda>(ext, n, x). n) (\<lambda>(ext, n, x). n)))
         (case_sum (\<lambda>(ext, n, x). n) (case_sum (\<lambda>(ext, n, x). n) (\<lambda>(ext, n, x). n))))")
     auto

definition cmd_run :: "host_eval \<Rightarrow> nat \<Rightarrow> interp \<Rightarrow> outcome option" where
  \<comment> \<open>\<^verbatim>\<open>cmd_run\<close> passes no start line; it is the call made for \<open>CallsRun\<close> above\<close>
  "cmd_run ext n st = execute_program ext n None st"

section \<open>Notions used to state the properties\<close>

fun state_of :: "outcome \<Rightarrow> interp" where
  \<comment> \<open>the interpreter's state when a call is over, whether it returned or raised\<close>
  "state_of (Done s) = s"
| "state_of (Raised e s) = s"

definition no_host :: host_eval where
  \<comment> \<open>a host that rejects every text outside the modelled fragment; used where an
      example needs a concrete host\<close>
  "no_host s lv = Inl (HostError s)"

definition int_tokens :: "int \<Rightarrow> token list" where
  \<comment> \<open>the tokens of a rendered integer: a negative one is a minus sign and a literal\<close>
  "int_tokens i = (if i < 0 then [TMinus, TNum (nat (- i))] else [TNum (nat i)])"

definition int_expr :: "int \<Rightarrow> expr" where
  \<comment> \<open>the tree Python reads a rendered integer as\<close>
  "int_expr i = (if i < 0 then Neg (Num (int (nat (- i)))) else Num (int (nat i)))"

fun returned :: "outcome \<Rightarrow> bool" where
  "returned (Done s) = True"
| "returned (Raised e s) = False"

definition command_of :: "string \<Rightarrow> string" where
  \<comment> \<open>\<^verbatim>\<open>parts[0].upper()\<close> of a statement; empty when the statement has no word\<close>
  "command_of stmt = (case split_maxsplit1 (py_strip stmt) of [] \<Rightarrow> [] | w # _ \<Rightarrow> py_upper w)"

definition arg_of :: "string \<Rightarrow> string" where
  \<comment> \<open>\<^verbatim>\<open>parts[1] if len(parts) > 1 else ""\<close>\<close>
  "arg_of stmt = (case split_maxsplit1 (py_strip stmt) of w # a # _ \<Rightarrow> a | _ \<Rightarrow> [])"

fun raised_error :: "outcome \<Rightarrow> error option" where
  "raised_error (Done s) = None"
| "raised_error (Raised e s) = Some e"

definition if_demo :: "(int \<times> string) list" where
  \<comment> \<open>the stored program of the control-flow example\<close>
  "if_demo = [(10, ''LET A = 1''), (20, ''IF A = 1 THEN 40''), (30, ''LET A = 99''), (40, ''PRINT A'')]"

definition wf_program :: "(int \<times> string) list \<Rightarrow> bool" where
  \<comment> \<open>what \<^verbatim>\<open>process_input\<close> guarantees of every entry it stores: one entry per line
      number, the number a natural number, the code non-empty, stripped and on one line\<close>
  "wf_program p =
     (distinct (map fst p)
      \<and> list_all (\<lambda>(k, code). 0 \<le> k \<and> code \<noteq> [] \<and> py_strip code = code \<and> CHR 0x0A \<notin> set code) p)"

definition calm_store :: "(int \<times> string) list \<Rightarrow> bool" where
  \<comment> \<open>no stored statement is a \<^verbatim>\<open>NEW\<close> or a \<^verbatim>\<open>LOAD\<close>\<close>
  "calm_store p = list_all (\<lambda>(k, stmt). command_of stmt \<noteq> ''NEW'' \<and> command_of stmt \<noteq> ''LOAD'') p"





section \<open>Lemmas about the string helpers and the expression reader\<close>

lemma upper_letter_not_space: "is_upper_letter c \<Longrightarrow> \<not> is_space c"
  by (auto simp: is_upper_letter_def is_space_def Let_def)

lemma upper_letter_not_digit: "is_upper_letter c \<Longrightarrow> \<not> is_digit c"
  by (auto simp: is_upper_letter_def is_digit_def Let_def)

lemma upper_letter_to_upper: "is_upper_letter c \<Longrightarrow> to_upper c = c"
  by (auto simp: is_upper_letter_def to_upper_def Let_def)

lemma upper_letter_neq:
  "is_upper_letter c \<Longrightarrow>
     c \<noteq> CHR ''='' \<and> c \<noteq> CHR '' '' \<and> c \<noteq> CHR ''('' \<and> c \<noteq> CHR '')'' \<and> c \<noteq> CHR ''/''
     \<and> c \<noteq> CHR ''+'' \<and> c \<noteq> CHR ''-'' \<and> c \<noteq> CHR ''*'' \<and> c \<noteq> CHR 0x0A"
  by (auto simp: is_upper_letter_def Let_def)

lemma char_of_48: "char_of (48::nat) = CHR ''0''"
  by code_simp

lemma is_digit_digit_char: "d < 10 \<Longrightarrow> is_digit (digit_char d)"
  by (simp add: is_digit_def digit_char_def Let_def)

lemma digit_val_digit_char: "d < 10 \<Longrightarrow> digit_val (digit_char d) = d"
  by (simp add: digit_val_def digit_char_def)

lemma digit_char_zero: "d < 10 \<Longrightarrow> digit_char d = CHR ''0'' \<longleftrightarrow> d = 0"
proof
  assume lt: "d < 10" and eq: "digit_char d = CHR ''0''"
  have "digit_val (digit_char d) = d" using lt by (rule digit_val_digit_char)
  then show "d = 0" by (simp add: eq digit_val_def)
next
  assume "d = 0"
  then show "digit_char d = CHR ''0''" by (simp add: digit_char_def char_of_48)
qed

lemma is_digit_facts: "is_digit c \<Longrightarrow> \<not> is_space c \<and> \<not> is_upper_letter c \<and> to_upper c = c \<and> c \<noteq> CHR ''/''"
  by (auto simp: is_digit_def is_space_def is_upper_letter_def to_upper_def Let_def)

lemma show_nat_digits: "\<forall>c \<in> set (show_nat n). is_digit c"
  by (induction n rule: show_nat.induct) (subst show_nat.simps, auto simp: is_digit_digit_char)

lemma show_nat_nonempty: "show_nat n \<noteq> []"
  by (subst show_nat.simps) simp

lemma digits_val_show_nat: "digits_val (show_nat n) = n"
  unfolding digits_val_def
  by (induction n rule: show_nat.induct) (subst show_nat.simps, auto simp: digit_val_digit_char)

lemma hd_show_nat: "hd (show_nat n) = CHR ''0'' \<longleftrightarrow> n = 0"
proof (induction n rule: show_nat.induct)
  case (1 n)
  show ?case
  proof (cases "n < 10")
    case True
    then show ?thesis by (subst show_nat.simps) (simp add: digit_char_zero)
  next
    case False
    then have "hd (show_nat n) = hd (show_nat (n div 10))"
      by (subst show_nat.simps) (simp add: show_nat_nonempty)
    with 1 False show ?thesis by auto
  qed
qed

lemma takeWhile_digits_show_nat:
  "rest = [] \<or> \<not> is_digit (hd rest) \<Longrightarrow> takeWhile is_digit (show_nat n @ rest) = show_nat n"
  using show_nat_digits [of n] by (cases rest) (auto simp: takeWhile_append)

lemma dropWhile_digits_show_nat:
  "rest = [] \<or> \<not> is_digit (hd rest) \<Longrightarrow> dropWhile is_digit (show_nat n @ rest) = rest"
  using show_nat_digits [of n] by (cases rest) (auto simp: dropWhile_append)

lemma filter_nonzero_show_nat: "0 < n \<Longrightarrow> hd (show_nat n) \<noteq> CHR ''0''"
  by (simp add: hd_show_nat)

lemma show_nat_zero: "show_nat 0 = ''0''"
  by (subst show_nat.simps) (simp add: digit_char_def char_of_48)

lemma lex_show_nat:
  assumes "rest = [] \<or> (\<not> is_digit (hd rest) \<and> \<not> is_upper_letter (hd rest))"
  shows "lex (show_nat n @ rest) = map_option ((#) (TNum n)) (lex rest)"
proof -
  obtain c cs where cs: "show_nat n = c # cs"
    using show_nat_nonempty [of n] by (cases "show_nat n") auto
  have dig: "is_digit c" "\<forall>d \<in> set cs. is_digit d"
    using show_nat_digits [of n] cs by auto
  have sp: "c \<noteq> CHR '' ''" using dig(1) by (auto simp: is_digit_def)
  have tw: "c # takeWhile is_digit (cs @ rest) = show_nat n"
    using takeWhile_digits_show_nat [of rest n] assms dig cs by auto
  have dw: "dropWhile is_digit (cs @ rest) = rest"
    using dropWhile_digits_show_nat [of rest n] assms dig cs by auto
  have lz: "\<not> (c = CHR ''0'' \<and> filter (\<lambda>d. d \<noteq> CHR ''0'') (show_nat n) \<noteq> [])"
  proof (cases "n = 0")
    case True then show ?thesis by (simp add: show_nat_zero)
  next
    case False
    then have "hd (show_nat n) \<noteq> CHR ''0''" by (simp add: hd_show_nat)
    then show ?thesis by (simp add: cs)
  qed
  have up: "\<not> (rest \<noteq> [] \<and> is_upper_letter (hd rest))" using assms by auto
  have "lex (c # cs @ rest) = map_option ((#) (TNum n)) (lex rest)"
    using dig(1) sp lz up
    by (auto simp add: tw dw Let_def digits_val_show_nat simp del: takeWhile_append dropWhile_append)
  then show ?thesis by (simp only: cs append_Cons)
qed


declare lex.simps [simp del]

lemma lex_Cons_simps:
  "lex (CHR '' '' # cs) = lex cs"
  "lex (CHR ''('' # cs) = map_option ((#) TLParen) (lex cs)"
  "lex (CHR '')'' # cs) = map_option ((#) TRParen) (lex cs)"
  "lex (CHR ''-'' # cs) = map_option ((#) TMinus) (lex cs)"
  "lex (CHR ''+'' # cs) = map_option ((#) TPlus) (lex cs)"
  "lex (CHR ''*'' # cs) = map_option ((#) TStar) (lex cs)"
  "lex (CHR ''/'' # CHR ''/'' # cs) = map_option ((#) TFloorDiv) (lex cs)"
  "lex [] = Some []"
  by (simp_all add: lex.simps is_digit_def is_upper_letter_def)

lemma lex_name:
  "is_upper_letter c \<Longrightarrow> cs = [] \<or> (\<not> is_upper_letter (hd cs) \<and> \<not> is_digit (hd cs)) \<Longrightarrow>
   lex (c # cs) = map_option ((#) (TName c)) (lex cs)"
  using upper_letter_not_digit [of c] upper_letter_neq [of c]
  by (auto simp: lex.simps)

lemma py_strip_id: "s \<noteq> [] \<Longrightarrow> \<not> is_space (hd s) \<Longrightarrow> \<not> is_space (last s) \<Longrightarrow> py_strip s = s"
proof -
  assume ne: "s \<noteq> []" and h: "\<not> is_space (hd s)" and l: "\<not> is_space (last s)"
  have a: "dropWhile is_space s = s" using ne h by (cases s) auto
  have "\<not> is_space (hd (rev s))" using l ne by (simp add: hd_rev)
  then have b: "dropWhile is_space (rev s) = rev s" using ne by (cases "rev s") auto
  show ?thesis by (simp add: py_strip_def a b)
qed

lemma py_strip_Nil: "py_strip [] = []"
  by (simp add: py_strip_def)

lemma py_upper_Cons: "py_upper (c # s) = to_upper c # py_upper s"
  by (simp add: py_upper_def)

lemma py_upper_Nil: "py_upper [] = []"
  by (simp add: py_upper_def)

lemma replace_slash_Cons:
  "replace_slash (c # s) = (if c = CHR ''/'' then ''//'' else [c]) @ replace_slash s"
  by (simp add: replace_slash_def)

lemma replace_slash_Nil: "replace_slash [] = []"
  by (simp add: replace_slash_def)

lemma py_upper_append: "py_upper (xs @ ys) = py_upper xs @ py_upper ys"
  by (simp add: py_upper_def)

lemma py_upper_fixed: "\<forall>c \<in> set s. to_upper c = c \<Longrightarrow> py_upper s = s"
  by (simp add: py_upper_def map_idI)

lemma replace_slash_append: "replace_slash (xs @ ys) = replace_slash xs @ replace_slash ys"
  by (simp add: replace_slash_def)

lemma replace_slash_fixed: "CHR ''/'' \<notin> set s \<Longrightarrow> replace_slash s = s"
  by (induction s) (auto simp: replace_slash_def)

lemma show_int_chars: "c \<in> set (show_int i) \<Longrightarrow> to_upper c = c \<and> c \<noteq> CHR ''/'' \<and> \<not> is_space c"
  using show_nat_digits is_digit_facts
  by (auto simp: show_int_def to_upper_def is_space_def split: if_splits)

lemma py_upper_show_int: "py_upper (show_int i) = show_int i"
  by (rule py_upper_fixed) (simp add: show_int_chars)

lemma replace_slash_show_int: "replace_slash (show_int i) = show_int i"
  by (rule replace_slash_fixed) (use show_int_chars in blast)

lemma lex_show_int:
  assumes "rest = [] \<or> (\<not> is_digit (hd rest) \<and> \<not> is_upper_letter (hd rest))"
  shows "lex (show_int i @ rest) = map_option ((@) (int_tokens i)) (lex rest)"
  using lex_show_nat [OF assms]
  by (cases "lex rest") (auto simp: show_int_def int_tokens_def lex_Cons_simps)

lemma eval_int_expr: "eval_ast lv (int_expr i) = Inr (IntVal i)"
  by (simp add: int_expr_def)

lemma parse_quotient:
  "parse ([TLParen] @ int_tokens a @ [TRParen, TFloorDiv, TLParen] @ int_tokens b @ [TRParen])
     = Some (BinOp FloorDiv (int_expr a) (int_expr b))"
  by (simp add: int_tokens_def int_expr_def parse_def eval_nat_numeral)

lemma eval_expression_modelled:
  assumes "py_upper (py_strip e) = s" and "s \<noteq> []"
    and "lex (replace_slash s) = Some ts" and "parse ts = Some ast"
  shows "eval_expression ext st e =
           (case eval_ast (local_vars st) ast of
              Inl x \<Rightarrow> Inl (ExpressionError (replace_slash s) x)
            | Inr (IntVal k) \<Rightarrow> Inr k
            | Inr (FuncVal n xs) \<Rightarrow> Inl (ExpressionError (replace_slash s) TypeError))"
  using assms by (simp add: eval_expression_def Let_def)

lemma eval_expression_quotient:
  assumes "b \<noteq> 0"
  shows "eval_expression ext st (''('' @ show_int a @ '') / ('' @ show_int b @ '')'') = Inr (a div b)"
proof -
  let ?s = "''('' @ show_int a @ '') / ('' @ show_int b @ '')''"
  have strip: "py_strip ?s = ?s"
    by (rule py_strip_id) (simp_all add: is_space_def)
  have up: "py_upper ?s = ?s"
    by (simp add: py_upper_append py_upper_Cons py_upper_Nil py_upper_show_int to_upper_def)
  have rs: "replace_slash ?s = ''('' @ show_int a @ '') // ('' @ show_int b @ '')''"
    by (simp add: replace_slash_append replace_slash_Cons replace_slash_Nil replace_slash_show_int)
  have lx: "lex (''('' @ show_int a @ '') // ('' @ show_int b @ '')'')
      = Some ([TLParen] @ int_tokens a @ [TRParen, TFloorDiv, TLParen] @ int_tokens b @ [TRParen])"
    by (simp add: lex_Cons_simps lex_show_int is_digit_def is_upper_letter_def)
  have "py_upper (py_strip ?s) = ?s" by (simp only: strip up)
  moreover have "?s \<noteq> []" by simp
  moreover have "lex (replace_slash ?s)
      = Some ([TLParen] @ int_tokens a @ [TRParen, TFloorDiv, TLParen] @ int_tokens b @ [TRParen])"
    by (simp only: rs lx)
  ultimately have "eval_expression ext st ?s =
           (case eval_ast (local_vars st) (BinOp FloorDiv (int_expr a) (int_expr b)) of
              Inl x \<Rightarrow> Inl (ExpressionError (replace_slash ?s) x)
            | Inr (IntVal k) \<Rightarrow> Inr k
            | Inr (FuncVal n xs) \<Rightarrow> Inl (ExpressionError (replace_slash ?s) TypeError))"
    using parse_quotient by (rule eval_expression_modelled)
  then show ?thesis
    using assms by (simp add: eval_int_expr py_binop_def)
qed

lemma split_print_paren:
  "split_maxsplit1 (py_strip (''PRINT ('' @ s @ '')'')) = [''PRINT'', ''('' @ s @ '')'']"
proof -
  have "py_strip (''PRINT ('' @ s @ '')'') = ''PRINT ('' @ s @ '')''"
    by (rule py_strip_id) (simp_all add: is_space_def)
  then show ?thesis by (simp add: split_maxsplit1_def is_space_def)
qed

lemma py_upper_PRINT: "py_upper ''PRINT'' = ''PRINT''"
  by code_simp

lemma eval_7_2: "eval_expression ext st ''7 / 2'' = Inr 3"
proof -
  have a: "py_upper (py_strip ''7 / 2'') = ''7 / 2''" by code_simp
  have b: "lex (replace_slash ''7 / 2'') = Some [TNum 7, TFloorDiv, TNum 2]" by code_simp
  have c: "parse [TNum 7, TFloorDiv, TNum 2] = Some (BinOp FloorDiv (Num 7) (Num 2))" by code_simp
  show ?thesis
    by (subst eval_expression_modelled [OF a _ b c]) (simp_all add: py_binop_def)
qed

lemma eval_m7_2: "eval_expression ext st ''(-7) / 2'' = Inr (- 4)"
proof -
  have a: "py_upper (py_strip ''(-7) / 2'') = ''(-7) / 2''" by code_simp
  have b: "lex (replace_slash ''(-7) / 2'') = Some [TLParen, TMinus, TNum 7, TRParen, TFloorDiv, TNum 2]" by code_simp
  have c: "parse [TLParen, TMinus, TNum 7, TRParen, TFloorDiv, TNum 2] = Some (BinOp FloorDiv (Neg (Num 7)) (Num 2))" by code_simp
  show ?thesis
    by (subst eval_expression_modelled [OF a _ b c]) (simp_all add: py_binop_def)
qed

lemma eval_expression_blank: "py_strip s = [] \<Longrightarrow> eval_expression ext st s = Inr 0"
  by (simp add: eval_expression_def py_upper_def)

lemma show_int_0: "show_int 0 = ''0''"
  by code_simp

lemma split_let_empty:
  assumes "is_upper_letter L"
  shows "split_maxsplit1 (py_strip (''LET '' @ [L] @ '' ='')) = [''LET'', [L] @ '' ='']"
proof -
  have "py_strip (''LET '' @ [L] @ '' ='') = ''LET '' @ [L] @ '' =''"
    by (rule py_strip_id) (simp_all add: is_space_def)
  then show ?thesis
    using upper_letter_not_space [OF assms] by (simp add: split_maxsplit1_def is_space_def)
qed

lemma cmd_let_empty:
  assumes "is_upper_letter L"
  shows "cmd_let ext ([L] @ '' ='') st = Done (st\<lparr>variables := (variables st)(L := 0)\<rparr>)"
proof -
  have a: "split_char CHR ''='' ([L] @ '' ='') = Some ([L] @ '' '', [])"
    using upper_letter_neq [OF assms] by simp
  have "py_strip ([L] @ '' '') = [L]"
    using upper_letter_not_space [OF assms] by (simp add: py_strip_def is_space_def)
  then have b: "py_upper (py_strip ([L] @ '' '')) = [L]"
    using upper_letter_to_upper [OF assms] by (simp add: py_upper_def)
  have c: "match_array_ref [L] = None"
    using upper_letter_neq [OF assms] by (simp add: match_array_ref_def dollar_body_def)
  have d: "match_letter [L] = Some L"
    using upper_letter_neq [OF assms] assms by (simp add: match_letter_def dollar_body_def)
  show ?thesis
    unfolding cmd_let_def a by (simp add: b c d eval_expression_blank py_strip_Nil del: append.simps)
qed

lemma split_maxsplit1_blank: "dropWhile is_space s = [] \<Longrightarrow> split_maxsplit1 s = []"
  by (simp add: split_maxsplit1_def)

lemma split_maxsplit1_word:
  assumes "dropWhile is_space s \<noteq> []"
  shows "\<exists>r. split_maxsplit1 s = takeWhile (\<lambda>c. \<not> is_space c) (dropWhile is_space s) # r"
proof (cases "dropWhile is_space (dropWhile (\<lambda>c. \<not> is_space c) (dropWhile is_space s)) = []")
  case True
  with assms show ?thesis
    by (simp only: split_maxsplit1_def Let_def if_False if_True simp_thms) blast
next
  case False
  with assms show ?thesis
    by (simp only: split_maxsplit1_def Let_def if_False if_True simp_thms) blast
qed

lemma split_maxsplit1_word_nonempty:
  assumes "split_maxsplit1 s = w # rest"
  shows "w \<noteq> []"
proof -
  have ne: "dropWhile is_space s \<noteq> []"
    using assms split_maxsplit1_blank [of s] by fastforce
  from split_maxsplit1_word [OF ne] assms
  have w: "w = takeWhile (\<lambda>c. \<not> is_space c) (dropWhile is_space s)" by fastforce
  have "takeWhile (\<lambda>c. \<not> is_space c) (dropWhile is_space s) \<noteq> []"
    using ne hd_dropWhile [of is_space s] by (cases "dropWhile is_space s") simp_all
  then show ?thesis unfolding w .
qed

lemma command_of_empty: "command_of stmt = [] \<longleftrightarrow> split_maxsplit1 (py_strip stmt) = []"
proof (cases "split_maxsplit1 (py_strip stmt)")
  case Nil
  then show ?thesis by (simp add: command_of_def)
next
  case (Cons w rest)
  from split_maxsplit1_word_nonempty [OF Cons] Cons show ?thesis
    by (simp add: command_of_def py_upper_def)
qed

lemma index_of_Some:
  "index_of xs x = Some i \<Longrightarrow> i < length xs \<and> xs ! i = x \<and> (\<forall>j < i. xs ! j \<noteq> x)"
proof (induction xs arbitrary: i)
  case Nil then show ?case by simp
next
  case (Cons y ys)
  show ?case
  proof (cases "y = x")
    case True with Cons.prems show ?thesis by simp
  next
    case False
    with Cons.prems obtain k where k: "index_of ys x = Some k" "i = Suc k" by auto
    from Cons.IH [OF k(1)] False k(2) show ?thesis by (auto simp: nth_Cons split: nat.splits)
  qed
qed

lemma index_of_None: "index_of xs x = None \<longleftrightarrow> x \<notin> set xs"
  by (induction xs) auto

lemma index_of_mem: "x \<in> set xs \<Longrightarrow> \<exists>i. index_of xs x = Some i"
  using index_of_None [of xs x] by (cases "index_of xs x") auto

lemma set_sorted_keys: "set (sorted_keys p) = fst ` set p"
  by (simp add: sorted_keys_def)

lemma dispatch_statement_alt:
  "dispatch_statement ext stmt st =
     (if command_of stmt = [] then Returns (Done st)
      else if command_of stmt = ''PRINT'' then Returns (cmd_print ext (arg_of stmt) st)
      else if command_of stmt = ''LET'' then Returns (cmd_let ext (arg_of stmt) st)
      else if command_of stmt = ''GOTO'' then Returns (Raised GotoDirect st)
      else if command_of stmt = ''IF'' then Returns (Raised IfDirect st)
      else if command_of stmt = ''DIM'' then Returns (cmd_dim ext (arg_of stmt) st)
      else if command_of stmt = ''END'' then Returns (Done st)
      else if command_of stmt = ''RUN'' then CallsRun
      else if command_of stmt = ''LIST'' then Returns (Done (cmd_list st))
      else if command_of stmt = ''NEW'' then Returns (Done (cmd_new st))
      else if command_of stmt = ''LOAD'' then CallsLoad (arg_of stmt)
      else if command_of stmt = ''SAVE'' then Returns (Done (cmd_save (arg_of stmt) st))
      else if command_of stmt = ''QUIT'' then Returns (Done (st\<lparr>running := False\<rparr>))
      else Returns (Done (emit (Out (''Unknown command: '' @ command_of stmt)) st)))"
proof (cases "split_maxsplit1 (py_strip stmt)")
  case Nil
  then show ?thesis by (simp add: dispatch_statement_def command_of_def)
next
  case (Cons w rest)
  have ne: "command_of stmt \<noteq> []" using Cons by (simp add: command_of_empty)
  have c: "command_of stmt = py_upper w" using Cons by (simp add: command_of_def)
  have a: "arg_of stmt = (case rest of [] \<Rightarrow> [] | a # _ \<Rightarrow> a)"
    using Cons by (simp add: arg_of_def split: list.splits)
  show ?thesis
    unfolding dispatch_statement_def Cons list.case Let_def a [symmetric] c [symmetric]
    using ne by (simp only: if_False)
qed

lemma loop_step_alt:
  "loop_step ext lines pc_idx st =
     (case map_of (program st) (lines ! pc_idx) of
        None \<Rightarrow> Halts (Raised (KeyError (lines ! pc_idx)) st)
      | Some stmt \<Rightarrow>
          if command_of stmt = [] then Halts (Raised IndexError st)
          else if command_of stmt = ''GOTO'' then
            (case eval_expression ext st (arg_of stmt) of
               Inl e \<Rightarrow> Halts (Done (emit (ErrorOnLine (lines ! pc_idx) e) st))
             | Inr target_line \<Rightarrow> jump_to lines target_line st)
          else if command_of stmt = ''IF'' then
            (case match_if (arg_of stmt) of
               Some (condition_str, target_str) \<Rightarrow>
                 (case eval_condition ext st condition_str of
                    Inl e \<Rightarrow> Halts (Done (emit (ErrorOnLine (lines ! pc_idx) e) st))
                  | Inr True \<Rightarrow>
                      (case eval_expression ext st target_str of
                         Inl e \<Rightarrow> Halts (Done (emit (ErrorOnLine (lines ! pc_idx) e) st))
                       | Inr target_line \<Rightarrow> jump_to lines target_line st)
                  | Inr False \<Rightarrow> Jumps (pc_idx + 1))
             | None \<Rightarrow>
                 Halts (Done (emit (Out (''Syntax error in IF on line '' @ show_int (lines ! pc_idx))) st)))
          else if command_of stmt = ''END'' then Halts (Done st)
          else Executes stmt)"
proof (cases "map_of (program st) (lines ! pc_idx)")
  case None
  then show ?thesis by (simp add: loop_step_def)
next
  case (Some stmt)
  show ?thesis
  proof (cases "split_maxsplit1 (py_strip stmt)")
    case Nil
    then show ?thesis using Some by (simp add: loop_step_def command_of_def)
  next
    case (Cons w rest)
    have ne: "command_of stmt \<noteq> []" using Cons by (simp add: command_of_empty)
    have c: "command_of stmt = py_upper w" using Cons by (simp add: command_of_def)
    have a: "arg_of stmt = (case rest of [] \<Rightarrow> [] | a # _ \<Rightarrow> a)"
      using Cons by (simp add: arg_of_def split: list.splits)
    show ?thesis
      unfolding loop_step_def Some option.case Cons list.case Let_def a [symmetric] c [symmetric]
      using ne by (simp only: if_False)
  qed
qed

lemma eval_50: "eval_expression ext st ''50'' = Inr 50"
proof -
  have a: "py_upper (py_strip ''50'') = ''50''" by code_simp
  have b: "lex (replace_slash ''50'') = Some [TNum 50]" by code_simp
  have c: "parse [TNum 50] = Some (Num 50)" by code_simp
  show ?thesis
    by (subst eval_expression_modelled [OF a _ b c]) simp_all
qed

lemma local_vars_array: "is_upper_letter L \<Longrightarrow> arrays st L = Some xs \<Longrightarrow> local_vars st L = Some (FuncVal L xs)"
  by (simp add: local_vars_def)

lemma local_vars_scalar: "is_upper_letter L \<Longrightarrow> arrays st L = None \<Longrightarrow> local_vars st L = Some (IntVal (variables st L))"
  by (simp add: local_vars_def)

lemma parse_name: "parse [TName L] = Some (Var L)"
  by (simp add: parse_def eval_nat_numeral)

lemma eval_expression_bare_array:
  assumes "is_upper_letter L" and "arrays st L = Some xs"
  shows "eval_expression ext st [L] = Inl (ExpressionError [L] TypeError)"
proof -
  have a: "py_upper (py_strip [L]) = [L]"
    using upper_letter_not_space [OF assms(1)] upper_letter_to_upper [OF assms(1)]
    by (simp add: py_strip_def py_upper_def)
  have r: "replace_slash [L] = [L]"
    using upper_letter_neq [OF assms(1)] by (simp add: replace_slash_def)
  have b: "lex (replace_slash [L]) = Some [TName L]"
    unfolding r using lex_name [OF assms(1), of "[]"] by (simp add: lex_Cons_simps)
  show ?thesis
    by (subst eval_expression_modelled [OF a _ b parse_name])
       (simp_all add: local_vars_array [OF assms] r)
qed

lemma py_strip_space_Cons: "py_strip (CHR '' '' # s) = py_strip s"
  by (simp add: py_strip_def is_space_def)

lemma eval_expression_space_Cons: "eval_expression ext st (CHR '' '' # e) = eval_expression ext st e"
  by (simp add: eval_expression_def py_strip_space_Cons)

lemma cmd_let_scalar:
  assumes "is_upper_letter L" and "eval_expression ext st e = Inr v"
  shows "cmd_let ext ([L] @ '' = '' @ e) st = Done (st\<lparr>variables := (variables st)(L := v)\<rparr>)"
proof -
  have a: "split_char CHR ''='' ([L] @ '' = '' @ e) = Some ([L] @ '' '', CHR '' '' # e)"
    using upper_letter_neq [OF assms(1)] by simp
  have "py_strip ([L] @ '' '') = [L]"
    using upper_letter_not_space [OF assms(1)] by (simp add: py_strip_def is_space_def)
  then have b: "py_upper (py_strip ([L] @ '' '')) = [L]"
    using upper_letter_to_upper [OF assms(1)] by (simp add: py_upper_def)
  have c: "match_array_ref [L] = None"
    using upper_letter_neq [OF assms(1)] by (simp add: match_array_ref_def dollar_body_def)
  have d: "match_letter [L] = Some L"
    using upper_letter_neq [OF assms(1)] assms(1) by (simp add: match_letter_def dollar_body_def)
  show ?thesis
    unfolding cmd_let_def a
    by (simp add: b c d eval_expression_space_Cons assms(2) del: append.simps)
qed

lemma eval_5: "eval_expression ext st ''5'' = Inr 5"
proof -
  have a: "py_upper (py_strip ''5'') = ''5''" by code_simp
  have b: "lex (replace_slash ''5'') = Some [TNum 5]" by code_simp
  have c: "parse [TNum 5] = Some (Num 5)" by code_simp
  show ?thesis
    by (subst eval_expression_modelled [OF a _ b c]) simp_all
qed

lemma py_strip_idem: "py_strip (py_strip s) = py_strip s"
proof (cases "py_strip s = []")
  case True then show ?thesis by (simp add: py_strip_Nil)
next
  case False
  let ?a = "dropWhile is_space s"
  let ?b = "dropWhile is_space (rev ?a)"
  have ps: "py_strip s = rev ?b" by (simp add: py_strip_def)
  from False have bne: "?b \<noteq> []" by (simp add: ps)
  then have "\<not> is_space (hd ?b)" by (rule hd_dropWhile)
  then have l: "\<not> is_space (last (py_strip s))" using bne by (simp add: ps last_rev)
  have ane: "?a \<noteq> []"
  proof
    assume e: "?a = []"
    have "?b = []" unfolding e by simp
    with bne show False by contradiction
  qed
  then have ha: "\<not> is_space (hd ?a)" by (rule hd_dropWhile)
  have "\<exists>ys. rev ?a = ys @ ?b" by (metis takeWhile_dropWhile_id)
  then obtain ys where "rev ?a = ys @ ?b" ..
  then have "?a = rev ?b @ rev ys" by (metis rev_append rev_rev_ident)
  then have "hd ?a = hd (rev ?b)" using bne by (metis hd_append2 rev_is_Nil_conv)
  with ha have h: "\<not> is_space (hd (py_strip s))" by (simp add: ps)
  from False h l show ?thesis by (rule py_strip_id)
qed

lemma eval_expression_strip: "eval_expression ext st (py_strip e) = eval_expression ext st e"
  by (simp add: eval_expression_def py_strip_idem)

lemma parse_int_tokens: "parse (int_tokens i) = Some (int_expr i)"
  by (simp add: int_tokens_def int_expr_def parse_def eval_nat_numeral)

lemma show_int_nonempty: "show_int i \<noteq> []"
  by (simp add: show_int_def show_nat_nonempty)

lemma eval_expression_show_int: "eval_expression ext st (show_int i) = Inr i"
proof -
  have "\<not> is_space (hd (show_int i))" "\<not> is_space (last (show_int i))"
    using show_int_chars [of _ i] show_int_nonempty [of i] by auto
  then have "py_strip (show_int i) = show_int i"
    using show_int_nonempty by (intro py_strip_id)
  then have a: "py_upper (py_strip (show_int i)) = show_int i" by (simp add: py_upper_show_int)
  have b: "lex (replace_slash (show_int i)) = Some (int_tokens i)"
    using lex_show_int [of "[]" i] by (simp add: replace_slash_show_int lex_Cons_simps)
  show ?thesis
    by (subst eval_expression_modelled [OF a show_int_nonempty b parse_int_tokens])
       (simp add: eval_int_expr)
qed

lemma eval_expression_bare_scalar:
  assumes "is_upper_letter L" and "arrays st L = None"
  shows "eval_expression ext st [L] = Inr (variables st L)"
proof -
  have a: "py_upper (py_strip [L]) = [L]"
    using upper_letter_not_space [OF assms(1)] upper_letter_to_upper [OF assms(1)]
    by (simp add: py_strip_def py_upper_def)
  have r: "replace_slash [L] = [L]"
    using upper_letter_neq [OF assms(1)] by (simp add: replace_slash_def)
  have b: "lex (replace_slash [L]) = Some [TName L]"
    unfolding r using lex_name [OF assms(1), of "[]"] by (simp add: lex_Cons_simps)
  show ?thesis
    by (subst eval_expression_modelled [OF a _ b parse_name])
       (simp_all add: local_vars_scalar [OF assms] r)
qed

lemma eval_cond_A_eq:
  assumes "arrays st CHR ''A'' = None"
  shows "eval_condition ext st ''A = 1'' = Inr (variables st CHR ''A'' = 1)"
proof -
  have s: "split_sub ''>='' ''A = 1'' = None" "split_sub ''<='' ''A = 1'' = None"
    "split_sub ''<>'' ''A = 1'' = None" "split_sub ''>'' ''A = 1'' = None"
    "split_sub ''<'' ''A = 1'' = None" "split_sub ''='' ''A = 1'' = Some (''A '', '' 1'')"
    by code_simp+
  have l: "is_upper_letter CHR ''A''" by (simp add: is_upper_letter_def)
  have "py_strip ''A '' = ''A''" by code_simp
  then have a: "eval_expression ext st ''A '' = Inr (variables st CHR ''A'')"
    using eval_expression_strip [of ext st "''A ''"] eval_expression_bare_scalar [OF l assms, of ext]
    by simp
  have "py_strip '' 1'' = show_int 1" by code_simp
  then have b: "eval_expression ext st '' 1'' = Inr 1"
    using eval_expression_strip [of ext st "'' 1''"] eval_expression_show_int [of ext st 1]
    by simp
  show ?thesis
    by (simp add: eval_condition_def cond_ops_def s a b compare_def)
qed

lemma run_prog6:
  assumes p: "program st = if_demo" and a: "arrays st CHR ''A'' = None"
  shows "execute_program ext (Suc (Suc (Suc (Suc (Suc n))))) (Some 10) st
           = Some (Done (emit (Out ''1'') (st\<lparr>variables := (variables st)(CHR ''A'' := 1)\<rparr>)))"
proof -
  let ?lines = "[10, 20, 30, 40] :: int list"
  let ?st1 = "st\<lparr>variables := (variables st)(CHR ''A'' := 1)\<rparr>"
  have l: "is_upper_letter CHR ''A''" by (simp add: is_upper_letter_def)
  have k: "sorted_keys (program st) = ?lines" by (simp add: p if_demo_def sorted_keys_def)
  have ne: "program st \<noteq> []" by (simp add: p if_demo_def)
  have c: "command_of ''LET A = 1'' = ''LET''" "arg_of ''LET A = 1'' = ''A = 1''"
    "command_of ''IF A = 1 THEN 40'' = ''IF''" "arg_of ''IF A = 1 THEN 40'' = ''A = 1 THEN 40''"
    "command_of ''PRINT A'' = ''PRINT''" "arg_of ''PRINT A'' = ''A''"
    "match_if ''A = 1 THEN 40'' = Some (''A = 1'', ''40'')"
    by code_simp+
  have sh: "show_int 1 = ''1''" "show_int 40 = ''40''" by code_simp+
  have e1: "eval_expression ext st ''1'' = Inr 1"
    using eval_expression_show_int [of ext st 1] by (simp add: sh)
  have e40: "eval_expression ext ?st1 ''40'' = Inr 40"
    using eval_expression_show_int [of ext ?st1 40] by (simp add: sh)
  have eA: "eval_expression ext ?st1 ''A'' = Inr 1"
    using eval_expression_bare_scalar [OF l, of ?st1 ext] a by simp
  have let1: "cmd_let ext ''A = 1'' st = Done ?st1"
    using cmd_let_scalar [OF l e1] by simp
  have cond: "eval_condition ext ?st1 ''A = 1'' = Inr True"
    using eval_cond_A_eq [of ?st1 ext] a by simp
  have step0: "loop_step ext ?lines 0 st = Executes ''LET A = 1''"
    by (simp add: loop_step_alt p if_demo_def c)
  have ex0: "execute_statement ext (Suc (Suc (Suc n))) ''LET A = 1'' st = Some (Done ?st1)"
    by (simp add: dispatch_statement_alt c let1)
  have step1: "loop_step ext ?lines (Suc 0) ?st1 = Jumps 3"
    by (simp add: loop_step_alt p if_demo_def c cond e40 jump_to_def)
  have step3: "loop_step ext ?lines 3 ?st1 = Executes ''PRINT A''"
    by (simp add: loop_step_alt p if_demo_def c)
  have ex3: "execute_statement ext (Suc n) ''PRINT A'' ?st1 = Some (Done (emit (Out ''1'') ?st1))"
    by (simp add: dispatch_statement_alt c cmd_print_def eA sh)
  have r4: "run_loop ext (Suc n) ?lines 4 (emit (Out ''1'') ?st1) = Some (Done (emit (Out ''1'') ?st1))"
    by simp
  have r3: "run_loop ext (Suc (Suc n)) ?lines 3 ?st1 = Some (Done (emit (Out ''1'') ?st1))"
    using step3 ex3 r4 by simp
  have r1: "run_loop ext (Suc (Suc (Suc n))) ?lines (Suc 0) ?st1 = Some (Done (emit (Out ''1'') ?st1))"
    using step1 r3 by simp
  have r0: "run_loop ext (Suc (Suc (Suc (Suc n)))) ?lines 0 st = Some (Done (emit (Out ''1'') ?st1))"
    using step0 ex0 r1 by simp
  show ?thesis using ne r0 by (simp add: k)
qed









lemma cmd_print_frame:
  "program (state_of (cmd_print ext a st)) = program st"
  "variables (state_of (cmd_print ext a st)) = variables st"
  "arrays (state_of (cmd_print ext a st)) = arrays st"
  "files (state_of (cmd_print ext a st)) = files st"
  by (simp_all add: cmd_print_def emit_def split: sum.splits)

lemma cmd_let_frame:
  "program (state_of (cmd_let ext a st)) = program st"
  "files (state_of (cmd_let ext a st)) = files st"
  by (simp_all add: cmd_let_def emit_def Let_def split: sum.splits option.splits prod.splits)

lemma cmd_dim_frame:
  "program (state_of (cmd_dim ext a st)) = program st"
  "files (state_of (cmd_dim ext a st)) = files st"
  by (simp_all add: cmd_dim_def split: sum.splits option.splits prod.splits)

lemma cmd_list_frame:
  "program (cmd_list st) = program st"
  "variables (cmd_list st) = variables st"
  "arrays (cmd_list st) = arrays st"
  "files (cmd_list st) = files st"
  by (simp_all add: cmd_list_def)

lemma cmd_save_frame:
  "program (cmd_save f st) = program st"
  "variables (cmd_save f st) = variables st"
  "arrays (cmd_save f st) = arrays st"
  by (simp_all add: cmd_save_def emit_def)

lemma emit_frame:
  "program (emit e st) = program st"
  "variables (emit e st) = variables st"
  "arrays (emit e st) = arrays st"
  "files (emit e st) = files st"
  by (simp_all add: emit_def)

lemma dispatch_Returns_program:
  assumes "dispatch_statement ext stmt st = Returns r" and "command_of stmt \<noteq> ''NEW''"
  shows "program (state_of r) = program st"
  using assms
  by (auto simp: dispatch_statement_alt cmd_print_frame cmd_let_frame cmd_dim_frame cmd_list_frame
        cmd_save_frame emit_frame split: if_splits)




lemma dispatch_CallsLoad:
  "dispatch_statement ext stmt st = CallsLoad f \<Longrightarrow> command_of stmt = ''LOAD'' \<and> f = arg_of stmt"
  by (auto simp: dispatch_statement_alt split: if_splits)

lemma loop_step_Halts:
  assumes "loop_step ext lines pc st = Halts r"
  shows "state_of r = st \<or> (\<exists>e. state_of r = emit e st)"
  using assms
  by (auto simp: loop_step_alt jump_to_def split: option.splits if_splits sum.splits prod.splits bool.splits)

lemma loop_step_Executes:
  assumes "loop_step ext lines pc st = Executes stmt"
  shows "map_of (program st) (lines ! pc) = Some stmt"
  using assms
  by (auto simp: loop_step_alt jump_to_def split: option.splits if_splits sum.splits prod.splits bool.splits)

lemma calm_store_lookup:
  "calm_store p \<Longrightarrow> map_of p k = Some stmt \<Longrightarrow> command_of stmt \<noteq> ''NEW'' \<and> command_of stmt \<noteq> ''LOAD''"
  by (auto simp: calm_store_def list_all_iff dest!: map_of_SomeD)

lemma run_keeps_program:
  "(\<forall>stmt st r. calm_store (program st) \<longrightarrow> command_of stmt \<noteq> ''NEW'' \<longrightarrow> command_of stmt \<noteq> ''LOAD''
        \<longrightarrow> execute_statement ext n stmt st = Some r \<longrightarrow> program (state_of r) = program st)
   \<and> (\<forall>start st r. calm_store (program st) \<longrightarrow> execute_program ext n start st = Some r
        \<longrightarrow> program (state_of r) = program st)
   \<and> (\<forall>lines pc st r. calm_store (program st) \<longrightarrow> run_loop ext n lines pc st = Some r
        \<longrightarrow> program (state_of r) = program st)"
proof (induction n)
  case 0
  show ?case by simp
next
  case (Suc n)
  note IH_stmt = Suc.IH [THEN conjunct1, rule_format]
  note IH_prog = Suc.IH [THEN conjunct2, THEN conjunct1, rule_format]
  note IH_loop = Suc.IH [THEN conjunct2, THEN conjunct2, rule_format]
  have stmt: "program (state_of r) = program st"
    if calm: "calm_store (program st)" and c: "command_of stmt \<noteq> ''NEW''" "command_of stmt \<noteq> ''LOAD''"
      and ex: "execute_statement ext (Suc n) stmt st = Some r" for stmt st r
  proof (cases "dispatch_statement ext stmt st")
    case (Returns r')
    with ex have "r' = r" by simp
    with Returns c(1) show ?thesis by (auto dest: dispatch_Returns_program)
  next
    case CallsRun
    with ex have "execute_program ext n None st = Some r" by simp
    with calm show ?thesis by (rule IH_prog)
  next
    case (CallsLoad f)
    with c(2) show ?thesis by (auto dest: dispatch_CallsLoad)
  qed
  have prog: "program (state_of r) = program st"
    if calm: "calm_store (program st)" and ex: "execute_program ext (Suc n) start st = Some r" for start st r
  proof (cases "program st = []")
    case True
    with ex show ?thesis by auto
  next
    case False
    show ?thesis
    proof (cases start)
      case None
      with ex False have "run_loop ext n (sorted_keys (program st)) 0 st = Some r" by simp
      with calm show ?thesis by (rule IH_loop)
    next
      case (Some s)
      show ?thesis
      proof (cases "index_of (sorted_keys (program st)) s")
        case None
        with ex False Some show ?thesis by (auto simp: emit_frame)
      next
        case (Some i)
        with ex False \<open>start = Some s\<close>
        have "run_loop ext n (sorted_keys (program st)) i st = Some r" by simp
        with calm show ?thesis by (rule IH_loop)
      qed
    qed
  qed
  have loop: "program (state_of r) = program st"
    if calm: "calm_store (program st)" and ex: "run_loop ext (Suc n) lines pc st = Some r" for lines pc st r
  proof (cases "pc < length lines")
    case False
    with ex show ?thesis by auto
  next
    case True
    show ?thesis
    proof (cases "loop_step ext lines pc st")
      case (Halts r')
      with ex True have "r' = r" by simp
      with loop_step_Halts [OF Halts] show ?thesis by (auto simp: emit_frame)
    next
      case (Jumps i)
      with ex True have "run_loop ext n lines i st = Some r" by simp
      with calm show ?thesis by (rule IH_loop)
    next
      case (Executes stmt)
      from loop_step_Executes [OF Executes] calm
      have c: "command_of stmt \<noteq> ''NEW''" "command_of stmt \<noteq> ''LOAD''"
        by (auto dest: calm_store_lookup)
      show ?thesis
      proof (cases "execute_statement ext n stmt st")
        case None
        with ex True Executes show ?thesis by simp
      next
        case (Some r1)
        from IH_stmt [OF calm c Some] have p1: "program (state_of r1) = program st" .
        show ?thesis
        proof (cases r1)
          case (Raised e st')
          with ex True Executes Some have "r = Done (emit (ErrorOnLine (lines ! pc) e) st')" by simp
          with p1 Raised show ?thesis by (simp add: emit_frame)
        next
          case (Done st')
          with ex True Executes Some have run: "run_loop ext n lines (pc + 1) st' = Some r" by simp
          from p1 Done have p': "program st' = program st" by simp
          with calm have "calm_store (program st')" by simp
          from IH_loop [OF this run] p' show ?thesis by simp
        qed
      qed
    qed
  qed
  from stmt prog loop show ?case by blast
qed

lemma set_update_subset: "set (AList.update k v al) \<subseteq> insert (k, v) (set al)"
  by (induction al) (auto simp: AList.update.simps)

lemma set_delete_subset: "set (AList.delete k al) \<subseteq> set al"
  by (induction al) (auto simp: AList.delete_eq)

lemma wf_program_update:
  assumes "wf_program p" and "0 \<le> k" and "code \<noteq> []" and "py_strip code = code"
    and "CHR 0x0A \<notin> set code"
  shows "wf_program (AList.update k code p)"
  using assms set_update_subset [of k code p]
  by (auto simp: wf_program_def list_all_iff distinct_update)

lemma wf_program_delete: "wf_program p \<Longrightarrow> wf_program (AList.delete k p)"
  using set_delete_subset [of k p]
  by (auto simp: wf_program_def list_all_iff distinct_delete)

lemma wf_program_Nil: "wf_program []"
  by (simp add: wf_program_def)

lemma set_py_strip: "set (py_strip s) \<subseteq> set s"
proof -
  have "set (py_strip s) = set (dropWhile is_space (rev (dropWhile is_space s)))"
    by (simp add: py_strip_def)
  also have "\<dots> \<subseteq> set (rev (dropWhile is_space s))" by (rule set_dropWhileD [THEN subsetI])
  also have "\<dots> \<subseteq> set s" using set_dropWhileD [of _ is_space s] by auto
  finally show ?thesis .
qed

lemma match_line_number_Some:
  assumes "match_line_number l = Some (k, rest)"
  shows "0 \<le> k" and "CHR 0x0A \<notin> set rest"
proof -
  from assms have k: "k = int (digits_val (takeWhile is_digit l))"
    and r: "rest = takeWhile (\<lambda>c. c \<noteq> CHR 0x0A) (dropWhile is_space (dropWhile is_digit l))"
    by (auto simp: match_line_number_def Let_def split: if_splits)
  show "0 \<le> k" by (simp add: k)
  show "CHR 0x0A \<notin> set rest" unfolding r by (auto dest: set_takeWhileD)
qed

lemma route_input_Stored_cases:
  assumes "route_input l st = Some (Stored st')"
  shows "\<exists>k rest. match_line_number (py_strip l) = Some (k, rest)
           \<and> (if py_strip rest \<noteq> [] then st' = st\<lparr>program := AList.update k (py_strip rest) (program st)\<rparr>
               else st' = st\<lparr>program := AList.delete k (program st)\<rparr>)"
  using assms
  by (auto simp: route_input_def Let_def split: if_splits option.splits prod.splits)


lemma route_input_Stored_wf:
  assumes "route_input l st = Some (Stored st')" and "wf_program (program st)"
  shows "wf_program (program st')"
proof -
  from route_input_Stored_cases [OF assms(1)] obtain k rest where
    m: "match_line_number (py_strip l) = Some (k, rest)"
    and s: "if py_strip rest \<noteq> [] then st' = st\<lparr>program := AList.update k (py_strip rest) (program st)\<rparr>
               else st' = st\<lparr>program := AList.delete k (program st)\<rparr>"
    by blast
  show ?thesis
  proof (cases "py_strip rest = []")
    case True
    with s assms(2) show ?thesis by (simp add: wf_program_delete)
  next
    case False
    have "CHR 0x0A \<notin> set (py_strip rest)"
      using match_line_number_Some(2) [OF m] set_py_strip [of rest] by auto
    with False s assms(2) match_line_number_Some(1) [OF m] show ?thesis
      by (simp add: wf_program_update py_strip_idem)
  qed
qed


lemma dispatch_Returns_wf:
  assumes "dispatch_statement ext stmt st = Returns r" and "wf_program (program st)"
  shows "wf_program (program (state_of r))"
proof (cases "command_of stmt = ''NEW''")
  case True
  with assms(1) have "r = Done (cmd_new st)"
    by (auto simp: dispatch_statement_alt split: if_splits)
  then show ?thesis by (simp add: cmd_new_def wf_program_Nil)
next
  case False
  with assms show ?thesis by (simp add: dispatch_Returns_program)
qed

lemma wf_program_all:
  "(\<forall>stmt st r. wf_program (program st) \<longrightarrow> execute_statement ext n stmt st = Some r
        \<longrightarrow> wf_program (program (state_of r)))
   \<and> (\<forall>start st r. wf_program (program st) \<longrightarrow> execute_program ext n start st = Some r
        \<longrightarrow> wf_program (program (state_of r)))
   \<and> (\<forall>lines pc st r. wf_program (program st) \<longrightarrow> run_loop ext n lines pc st = Some r
        \<longrightarrow> wf_program (program (state_of r)))
   \<and> (\<forall>f st r. wf_program (program st) \<longrightarrow> cmd_load ext n f st = Some r
        \<longrightarrow> wf_program (program (state_of r)))
   \<and> (\<forall>ls st r. wf_program (program st) \<longrightarrow> load_lines ext n ls st = Some r
        \<longrightarrow> wf_program (program (state_of r)))
   \<and> (\<forall>l st r. wf_program (program st) \<longrightarrow> process_input ext n l st = Some r
        \<longrightarrow> wf_program (program (state_of r)))"
proof (induction n)
  case 0
  show ?case by simp
next
  case (Suc n)
  note IH_stmt = Suc.IH [THEN conjunct1, rule_format]
  note IH_prog = Suc.IH [THEN conjunct2, THEN conjunct1, rule_format]
  note IH_loop = Suc.IH [THEN conjunct2, THEN conjunct2, THEN conjunct1, rule_format]
  note IH_load = Suc.IH [THEN conjunct2, THEN conjunct2, THEN conjunct2, THEN conjunct1, rule_format]
  note IH_lines = Suc.IH [THEN conjunct2, THEN conjunct2, THEN conjunct2, THEN conjunct2,
      THEN conjunct1, rule_format]
  note IH_input = Suc.IH [THEN conjunct2, THEN conjunct2, THEN conjunct2, THEN conjunct2,
      THEN conjunct2, rule_format]
  have stmt: "wf_program (program (state_of r))"
    if wf: "wf_program (program st)" and ex: "execute_statement ext (Suc n) stmt st = Some r"
    for stmt st r
  proof (cases "dispatch_statement ext stmt st")
    case (Returns r')
    with ex have "r' = r" by simp
    with Returns wf show ?thesis by (auto dest: dispatch_Returns_wf)
  next
    case CallsRun
    with ex have "execute_program ext n None st = Some r" by simp
    with wf show ?thesis by (rule IH_prog)
  next
    case (CallsLoad f)
    with ex have "cmd_load ext n f st = Some r" by simp
    with wf show ?thesis by (rule IH_load)
  qed
  have prog: "wf_program (program (state_of r))"
    if wf: "wf_program (program st)" and ex: "execute_program ext (Suc n) start st = Some r"
    for start st r
  proof (cases "program st = []")
    case True
    with ex wf show ?thesis by auto
  next
    case False
    show ?thesis
    proof (cases start)
      case None
      with ex False have "run_loop ext n (sorted_keys (program st)) 0 st = Some r" by simp
      with wf show ?thesis by (rule IH_loop)
    next
      case (Some s)
      show ?thesis
      proof (cases "index_of (sorted_keys (program st)) s")
        case None
        with ex False Some wf show ?thesis by (auto simp: emit_frame)
      next
        case (Some i)
        with ex False \<open>start = Some s\<close>
        have "run_loop ext n (sorted_keys (program st)) i st = Some r" by simp
        with wf show ?thesis by (rule IH_loop)
      qed
    qed
  qed
  have loop: "wf_program (program (state_of r))"
    if wf: "wf_program (program st)" and ex: "run_loop ext (Suc n) lines pc st = Some r"
    for lines pc st r
  proof (cases "pc < length lines")
    case False
    with ex wf show ?thesis by auto
  next
    case True
    show ?thesis
    proof (cases "loop_step ext lines pc st")
      case (Halts r')
      with ex True have "r' = r" by simp
      with loop_step_Halts [OF Halts] wf show ?thesis by (auto simp: emit_frame)
    next
      case (Jumps i)
      with ex True have "run_loop ext n lines i st = Some r" by simp
      with wf show ?thesis by (rule IH_loop)
    next
      case (Executes stmt)
      show ?thesis
      proof (cases "execute_statement ext n stmt st")
        case None
        with ex True Executes show ?thesis by simp
      next
        case (Some r1)
        from IH_stmt [OF wf Some] have p1: "wf_program (program (state_of r1))" .
        show ?thesis
        proof (cases r1)
          case (Raised e st')
          with ex True Executes Some have "r = Done (emit (ErrorOnLine (lines ! pc) e) st')" by simp
          with p1 Raised show ?thesis by (simp add: emit_frame)
        next
          case (Done st')
          with ex True Executes Some have run: "run_loop ext n lines (pc + 1) st' = Some r" by simp
          from p1 Done have "wf_program (program st')" by simp
          from IH_loop [OF this run] show ?thesis .
        qed
      qed
    qed
  qed
  have load: "wf_program (program (state_of r))"
    if wf: "wf_program (program st)" and ex: "cmd_load ext (Suc n) f st = Some r" for f st r
  proof (cases "f = []")
    case True
    with ex wf show ?thesis by (auto simp: emit_frame)
  next
    case False
    show ?thesis
    proof (cases "files st f")
      case None
      with ex False wf show ?thesis by (auto simp: emit_frame)
    next
      case (Some ls)
      show ?thesis
      proof (cases "load_lines ext n ls (st\<lparr>program := []\<rparr>)")
        case None
        with ex False Some show ?thesis by simp
      next
        case (Some r1)
        have "wf_program (program (st\<lparr>program := []\<rparr>))" by (simp add: wf_program_Nil)
        from IH_lines [OF this Some] have p1: "wf_program (program (state_of r1))" .
        from ex False \<open>files st f = Some ls\<close> Some
        have "\<exists>e. state_of r = emit e (state_of r1)" by (cases r1) auto
        with p1 show ?thesis by (auto simp: emit_frame)
      qed
    qed
  qed
  have lines: "wf_program (program (state_of r))"
    if wf: "wf_program (program st)" and ex: "load_lines ext (Suc n) ls st = Some r" for ls st r
  proof (cases ls)
    case Nil
    with ex wf show ?thesis by auto
  next
    case (Cons l ls')
    show ?thesis
    proof (cases "process_input ext n l st")
      case None
      with ex Cons show ?thesis by simp
    next
      case (Some r1)
      from IH_input [OF wf Some] have p1: "wf_program (program (state_of r1))" .
      show ?thesis
      proof (cases r1)
        case (Raised e st')
        with ex Cons Some have "r = Raised e st'" by simp
        with p1 Raised show ?thesis by simp
      next
        case (Done st')
        with ex Cons Some have run: "load_lines ext n ls' st' = Some r" by simp
        from p1 Done have "wf_program (program st')" by simp
        from IH_lines [OF this run] show ?thesis .
      qed
    qed
  qed
  have input: "wf_program (program (state_of r))"
    if wf: "wf_program (program st)" and ex: "process_input ext (Suc n) l st = Some r" for l st r
  proof (cases "route_input l st")
    case None
    with ex wf show ?thesis by auto
  next
    case (Some a)
    show ?thesis
    proof (cases a)
      case (Stored st')
      with ex Some have "r = Done st'" by simp
      with route_input_Stored_wf [of l st st'] Some Stored wf show ?thesis by simp
    next
      case (Direct s)
      with ex Some have "execute_statement ext n s st = Some r" by simp
      with wf show ?thesis by (rule IH_stmt)
    qed
  qed
  from stmt prog loop load lines input show ?case by blast
qed

lemma wf_program_preserved:
  assumes "wf_program (program st)"
  shows "process_input ext n l st = Some r \<Longrightarrow> wf_program (program (state_of r))"
    and "execute_statement ext n stmt st = Some r \<Longrightarrow> wf_program (program (state_of r))"
    and "execute_program ext n start st = Some r \<Longrightarrow> wf_program (program (state_of r))"
    and "cmd_load ext n f st = Some r \<Longrightarrow> wf_program (program (state_of r))"
  using assms wf_program_all [of ext n] by blast+

lemma wf_program_init: "wf_program (program (init_interp fs))"
  by (simp add: init_interp_def wf_program_Nil)

lemma run_print_1:
  assumes "program st = [(10, ''PRINT 1'')]"
  shows "execute_program ext (Suc (Suc (Suc n))) None st = Some (Done (emit (Out ''1'') st))"
proof -
  have c: "command_of ''PRINT 1'' = ''PRINT''" "arg_of ''PRINT 1'' = ''1''" by code_simp+
  have sh: "show_int 1 = ''1''" by code_simp
  have e1: "eval_expression ext st ''1'' = Inr 1"
    using eval_expression_show_int [of ext st 1] by (simp add: sh)
  have k: "sorted_keys (program st) = [10]" by (simp add: assms sorted_keys_def)
  have step: "loop_step ext [10] 0 st = Executes ''PRINT 1''"
    by (simp add: loop_step_alt assms c)
  have ex: "execute_statement ext (Suc n) ''PRINT 1'' st = Some (Done (emit (Out ''1'') st))"
    by (simp add: dispatch_statement_alt c cmd_print_def e1 sh)
  have r1: "run_loop ext (Suc n) [10] 1 (emit (Out ''1'') st) = Some (Done (emit (Out ''1'') st))"
    by simp
  have r0: "run_loop ext (Suc (Suc n)) [10] 0 st = Some (Done (emit (Out ''1'') st))"
    using step ex r1 by simp
  have ne: "program st \<noteq> []" by (simp add: assms)
  show ?thesis using ne r0 by (simp add: k)
qed
















section \<open>The claims\<close>

text \<open>
  Claim C5. Division in an expression is floor division: \<^verbatim>\<open>PRINT 7 / 2\<close> prints 3,
  \<^verbatim>\<open>PRINT (-7) / 2\<close> prints -4, and for all integers \<open>a\<close> and \<open>b \<noteq> 0\<close> the statement
  \<^verbatim>\<open>PRINT (a) / (b)\<close> prints \<open>a div b\<close>, the floor of the quotient, whatever the state.
\<close>

theorem print_division_floor:
  "execute_statement ext (Suc n) ''PRINT 7 / 2'' st = Some (Done (emit (Out ''3'') st))
   \<and> execute_statement ext (Suc n) ''PRINT (-7) / 2'' st = Some (Done (emit (Out ''-4'') st))
   \<and> (b \<noteq> 0 \<longrightarrow>
        execute_statement ext (Suc n) (''PRINT ('' @ show_int a @ '') / ('' @ show_int b @ '')'') st
          = Some (Done (emit (Out (show_int (a div b))) st))
        \<and> real_of_int (a div b) = of_int \<lfloor>real_of_int a / real_of_int b\<rfloor>)"
proof (intro conjI impI)
  have s1: "split_maxsplit1 (py_strip ''PRINT 7 / 2'') = [''PRINT'', ''7 / 2'']" by code_simp
  have sh: "show_int 3 = ''3''" by code_simp
  show "execute_statement ext (Suc n) ''PRINT 7 / 2'' st = Some (Done (emit (Out ''3'') st))"
    by (simp add: dispatch_statement_def s1 py_upper_PRINT cmd_print_def eval_7_2 sh)
next
  have s1: "split_maxsplit1 (py_strip ''PRINT (-7) / 2'') = [''PRINT'', ''(-7) / 2'']" by code_simp
  have sh: "show_int (- 4) = ''-4''" by code_simp
  show "execute_statement ext (Suc n) ''PRINT (-7) / 2'' st = Some (Done (emit (Out ''-4'') st))"
    by (simp add: dispatch_statement_def s1 py_upper_PRINT cmd_print_def eval_m7_2 sh)
next
  assume b: "b \<noteq> 0"
  have "dispatch_statement ext (''PRINT ('' @ s @ '')'') st = Returns (cmd_print ext (''('' @ s @ '')'') st)" for s
    unfolding dispatch_statement_def split_print_paren by (simp add: py_upper_PRINT)
  from this [of "show_int a @ '') / ('' @ show_int b"] eval_expression_quotient [OF b, of ext st a]
  show "execute_statement ext (Suc n) (''PRINT ('' @ show_int a @ '') / ('' @ show_int b @ '')'') st
          = Some (Done (emit (Out (show_int (a div b))) st))"
    by (simp add: cmd_print_def)
next
  show "real_of_int (a div b) = of_int \<lfloor>real_of_int a / real_of_int b\<rfloor>"
    by (simp add: floor_divide_of_int_eq)
qed

theorem print_division_floor_witness:
  "execute_statement no_host (Suc 0) (''PRINT ('' @ show_int (- 7) @ '') / ('' @ show_int 2 @ '')'')
       (init_interp Map.empty)
     = Some (Done (emit (Out (show_int (- 4))) (init_interp Map.empty)))
   \<and> show_int (- 4) = ''-4''"
proof -
  have "(- 7) div (2::int) = - 4" by simp
  moreover have "show_int (- 4) = ''-4''" by code_simp
  ultimately show ?thesis
    using print_division_floor [of no_host 0 "init_interp Map.empty" 2 "- 7"] by simp
qed

text \<open>
  Claim C9. An empty expression evaluates to 0 and is no syntax error: in every state,
  \<^verbatim>\<open>PRINT\<close> with no argument prints 0, and \<^verbatim>\<open>LET L =\<close> with nothing after the equals
  sign assigns 0 to the letter \<open>L\<close>.
\<close>

theorem empty_expression_is_zero:
  "eval_expression ext st [] = Inr 0
   \<and> execute_statement ext (Suc n) ''PRINT'' st = Some (Done (emit (Out ''0'') st))
   \<and> (is_upper_letter L \<longrightarrow>
        execute_statement ext (Suc n) (''LET '' @ [L] @ '' ='') st
          = Some (Done (st\<lparr>variables := (variables st)(L := 0)\<rparr>)))"
proof (intro conjI impI)
  show "eval_expression ext st [] = Inr 0"
    by (simp add: eval_expression_blank py_strip_Nil)
next
  have a: "split_maxsplit1 (py_strip ''PRINT'') = [''PRINT'']" by code_simp
  show "execute_statement ext (Suc n) ''PRINT'' st = Some (Done (emit (Out ''0'') st))"
    by (simp add: dispatch_statement_def a py_upper_PRINT cmd_print_def eval_expression_blank
          py_strip_Nil show_int_0)
next
  assume L: "is_upper_letter L"
  have u: "py_upper ''LET'' = ''LET''" by code_simp
  have "dispatch_statement ext (''LET '' @ [L] @ '' ='') st = Returns (cmd_let ext ([L] @ '' ='') st)"
    unfolding dispatch_statement_def split_let_empty [OF L] by (simp add: u)
  then show "execute_statement ext (Suc n) (''LET '' @ [L] @ '' ='') st
          = Some (Done (st\<lparr>variables := (variables st)(L := 0)\<rparr>))"
    using cmd_let_empty [OF L, of ext st] by simp
qed

theorem empty_expression_is_zero_witness:
  "is_upper_letter CHR ''A''
   \<and> execute_statement no_host (Suc 0) ''LET A ='' ((init_interp Map.empty)\<lparr>variables := (\<lambda>_. 5)\<rparr>)
       = Some (Done ((init_interp Map.empty)\<lparr>variables := (\<lambda>_. 5)(CHR ''A'' := 0)\<rparr>))"
proof -
  have h: "is_upper_letter CHR ''A''" by (simp add: is_upper_letter_def)
  show ?thesis
    using h empty_expression_is_zero [of no_host "(init_interp Map.empty)\<lparr>variables := (\<lambda>_. 5)\<rparr>" 0 "CHR ''A''"]
    by simp
qed

text \<open>
  Claim C4, as amended. During a run, a \<^verbatim>\<open>GOTO\<close> whose evaluated target is not a stored
  line number halts the run at once, with the state otherwise unchanged, and prints
  \<^verbatim>\<open>Line <target> not found in program.\<close>: the report names the target line, not the
  line being executed.
\<close>

theorem goto_missing_line_halts:
  assumes "pc < length lines"
    and "map_of (program st) (lines ! pc) = Some stmt"
    and "command_of stmt = ''GOTO''"
    and "eval_expression ext st (arg_of stmt) = Inr t"
    and "t \<notin> set lines"
  shows "run_loop ext (Suc n) lines pc st
           = Some (Done (emit (Out (''Line '' @ show_int t @ '' not found in program.'')) st))"
proof -
  have "index_of lines t = None" using assms(5) by (simp add: index_of_None)
  then have "loop_step ext lines pc st
      = Halts (Done (emit (Out (''Line '' @ show_int t @ '' not found in program.'')) st))"
    using assms(2,3,4) by (simp add: loop_step_alt jump_to_def)
  then show ?thesis using assms(1) by simp
qed

theorem goto_missing_line_halts_witness:
  "run_loop no_host (Suc 0) [10] 0 ((init_interp Map.empty)\<lparr>program := [(10, ''GOTO 50'')]\<rparr>)
     = Some (Done (emit (Out ''Line 50 not found in program.'')
                    ((init_interp Map.empty)\<lparr>program := [(10, ''GOTO 50'')]\<rparr>)))"
proof -
  let ?st = "(init_interp Map.empty)\<lparr>program := [(10, ''GOTO 50'')]\<rparr>"
  have c: "command_of ''GOTO 50'' = ''GOTO''" by code_simp
  have a: "arg_of ''GOTO 50'' = ''50''" by code_simp
  have s: "show_int 50 = ''50''" by code_simp
  have "run_loop no_host (Suc 0) [10] 0 ?st
           = Some (Done (emit (Out (''Line '' @ show_int 50 @ '' not found in program.'')) ?st))"
    by (rule goto_missing_line_halts [where stmt = "''GOTO 50''"])
       (simp_all add: c a eval_50)
  then show ?thesis by (simp add: s)
qed

theorem goto_missing_line_counterexample:
  "map_option (printed \<circ> state_of)
     (execute_program no_host 2 None ((init_interp Map.empty)\<lparr>program := [(10, ''GOTO 50'')]\<rparr>))
     = Some [Out ''Line 50 not found in program.'']"
  by code_simp

text \<open>
  Claim C2, as amended. For every non-empty stored program, \<^verbatim>\<open>execute_program\<close> with
  no start line begins at index 0; with a start line \<open>s\<close> that is stored it begins at the
  index of \<open>s\<close> in the ascending list of line numbers; with a start line that is not
  stored it prints \<^verbatim>\<open>Line s not found.\<close> and returns, the state otherwise unchanged, so
  that no statement is executed. On an empty program it returns at once and prints
  nothing.
\<close>

theorem run_start_line:
  assumes "program st \<noteq> []"
  shows "execute_program ext (Suc n) None st = run_loop ext n (sorted_keys (program st)) 0 st
     \<and> (s \<in> fst ` set (program st) \<longrightarrow>
          (\<exists>i < length (sorted_keys (program st)).
              sorted_keys (program st) ! i = s
            \<and> (\<forall>j < i. sorted_keys (program st) ! j \<noteq> s)
            \<and> execute_program ext (Suc n) (Some s) st = run_loop ext n (sorted_keys (program st)) i st))
     \<and> (s \<notin> fst ` set (program st) \<longrightarrow>
          execute_program ext (Suc n) (Some s) st
            = Some (Done (emit (Out (''Line '' @ show_int s @ '' not found.'')) st)))"
proof (intro conjI impI)
  show "execute_program ext (Suc n) None st = run_loop ext n (sorted_keys (program st)) 0 st"
    using assms by simp
next
  assume "s \<in> fst ` set (program st)"
  then have "s \<in> set (sorted_keys (program st))" by (simp add: set_sorted_keys)
  then obtain i where i: "index_of (sorted_keys (program st)) s = Some i"
    using index_of_mem by fastforce
  from index_of_Some [OF i] i assms
  show "\<exists>i < length (sorted_keys (program st)).
              sorted_keys (program st) ! i = s
            \<and> (\<forall>j < i. sorted_keys (program st) ! j \<noteq> s)
            \<and> execute_program ext (Suc n) (Some s) st = run_loop ext n (sorted_keys (program st)) i st"
    by (intro exI [of _ i]) simp
next
  assume "s \<notin> fst ` set (program st)"
  then have "index_of (sorted_keys (program st)) s = None"
    by (simp add: index_of_None set_sorted_keys)
  then show "execute_program ext (Suc n) (Some s) st
            = Some (Done (emit (Out (''Line '' @ show_int s @ '' not found.'')) st))"
    using assms by simp
qed

theorem run_start_line_witness:
  "execute_program no_host (Suc 0) (Some 15)
      ((init_interp Map.empty)\<lparr>program := [(10, ''PRINT 1''), (20, ''PRINT 2'')]\<rparr>)
     = Some (Done (emit (Out ''Line 15 not found.'')
          ((init_interp Map.empty)\<lparr>program := [(10, ''PRINT 1''), (20, ''PRINT 2'')]\<rparr>)))
   \<and> (\<exists>i < 2. [10, 20] ! i = (20::int)
         \<and> execute_program no_host (Suc 0) (Some 20)
              ((init_interp Map.empty)\<lparr>program := [(10, ''PRINT 1''), (20, ''PRINT 2'')]\<rparr>)
           = run_loop no_host 0 [10, 20] i
              ((init_interp Map.empty)\<lparr>program := [(10, ''PRINT 1''), (20, ''PRINT 2'')]\<rparr>))"
proof -
  let ?st = "(init_interp Map.empty)\<lparr>program := [(10, ''PRINT 1''), (20, ''PRINT 2'')]\<rparr>"
  have s: "show_int 15 = ''15''" by code_simp
  have k: "sorted_keys (program ?st) = [10, 20]" by (simp add: sorted_keys_def)
  have ne: "program ?st \<noteq> []" by simp
  have a: "execute_program no_host (Suc 0) (Some 15) ?st
             = Some (Done (emit (Out ''Line 15 not found.'') ?st))"
  proof -
    have "15 \<notin> fst ` set (program ?st)" by simp
    with run_start_line [OF ne, of no_host 0 15]
    have "execute_program no_host (Suc 0) (Some 15) ?st
            = Some (Done (emit (Out (''Line '' @ show_int 15 @ '' not found.'')) ?st))"
      by blast
    then show ?thesis unfolding s append.simps .
  qed
  have "20 \<in> fst ` set (program ?st)" by simp
  with run_start_line [OF ne, of no_host 0 20]
  have "\<exists>i < length [10, 20 :: int]. [10, 20] ! i = (20::int)
         \<and> execute_program no_host (Suc 0) (Some 20) ?st = run_loop no_host 0 [10, 20] i ?st"
    unfolding k by blast
  moreover have "length [10, 20 :: int] = 2" by simp
  ultimately have "\<exists>i < 2. [10, 20] ! i = (20::int)
         \<and> execute_program no_host (Suc 0) (Some 20) ?st = run_loop no_host 0 [10, 20] i ?st"
    by (simp only:)
  with a show ?thesis by blast
qed

theorem run_start_line_counterexample:
  "execute_program no_host (Suc 0) (Some 10) (init_interp Map.empty) = Some (Done (init_interp Map.empty))
   \<and> printed (init_interp Map.empty) = []"
  by (simp add: init_interp_def)

text \<open>
  Claim C1, as amended. For every letter \<open>L\<close> that is bound as an array, reading bare
  \<open>L\<close> fails: the host raises a type error on the accessor, reported as an expression
  error. Writing \<open>L\<close> as a scalar with \<^verbatim>\<open>LET L = e\<close> does not fail: it stores the value
  in the scalar table and leaves the array in place, so the letter then has both, and
  bare \<open>L\<close> still fails to read while the array exists.
\<close>

theorem scalar_access_to_array_letter:
  assumes "is_upper_letter L" and "arrays st L = Some xs"
  shows "eval_expression ext st [L] = Inl (ExpressionError [L] TypeError)
     \<and> cmd_print ext [L] st = Raised (ExpressionError [L] TypeError) st
     \<and> (eval_expression ext st e = Inr v \<longrightarrow>
          cmd_let ext ([L] @ '' = '' @ e) st = Done (st\<lparr>variables := (variables st)(L := v)\<rparr>)
        \<and> arrays (st\<lparr>variables := (variables st)(L := v)\<rparr>) L = Some xs
        \<and> eval_expression ext (st\<lparr>variables := (variables st)(L := v)\<rparr>) [L]
            = Inl (ExpressionError [L] TypeError))"
proof (intro conjI impI)
  show r: "eval_expression ext st [L] = Inl (ExpressionError [L] TypeError)"
    using assms by (rule eval_expression_bare_array)
  show "cmd_print ext [L] st = Raised (ExpressionError [L] TypeError) st"
    by (simp add: cmd_print_def r)
next
  assume "eval_expression ext st e = Inr v"
  with assms(1) show "cmd_let ext ([L] @ '' = '' @ e) st = Done (st\<lparr>variables := (variables st)(L := v)\<rparr>)"
    by (rule cmd_let_scalar)
next
  show "arrays (st\<lparr>variables := (variables st)(L := v)\<rparr>) L = Some xs"
    using assms(2) by simp
  then show "eval_expression ext (st\<lparr>variables := (variables st)(L := v)\<rparr>) [L]
            = Inl (ExpressionError [L] TypeError)"
    using assms(1) by (intro eval_expression_bare_array)
qed

theorem scalar_access_to_array_letter_witness:
  "cmd_print no_host ''A'' ((init_interp Map.empty)\<lparr>arrays := [CHR ''A'' \<mapsto> [0, 0, 0, 0]]\<rparr>)
     = Raised (ExpressionError ''A'' TypeError) ((init_interp Map.empty)\<lparr>arrays := [CHR ''A'' \<mapsto> [0, 0, 0, 0]]\<rparr>)
   \<and> cmd_let no_host ''A = 5'' ((init_interp Map.empty)\<lparr>arrays := [CHR ''A'' \<mapsto> [0, 0, 0, 0]]\<rparr>)
     = Done ((init_interp Map.empty)\<lparr>arrays := [CHR ''A'' \<mapsto> [0, 0, 0, 0]],
                                       variables := (\<lambda>_. 0)(CHR ''A'' := 5)\<rparr>)"
proof -
  let ?st = "(init_interp Map.empty)\<lparr>arrays := [CHR ''A'' \<mapsto> [0, 0, 0, 0]]\<rparr>"
  have l: "is_upper_letter CHR ''A''" by (simp add: is_upper_letter_def)
  have a: "arrays ?st CHR ''A'' = Some [0, 0, 0, 0]" by simp
  have e: "eval_expression no_host ?st ''5'' = Inr 5" by (rule eval_5)
  from scalar_access_to_array_letter [OF l a, of no_host "''5''" 5] e
  show ?thesis by (simp add: init_interp_def)
qed

theorem scalar_access_to_array_letter_counterexample:
  "map_option (\<lambda>r. (returned r, variables (state_of r) CHR ''A'', arrays (state_of r) CHR ''A''))
     (load_lines no_host 4 [''DIM A(3)'', ''LET A = 5''] (init_interp Map.empty))
     = Some (True, 5, Some [0, 0, 0, 0])"
  by code_simp

text \<open>
  Claim C3, evaluated where the code departs from it. After \<^verbatim>\<open>DIM B(2)\<close> and
  \<^verbatim>\<open>LET B(2) = 9\<close>, reading \<^verbatim>\<open>B(-1)\<close> does not fail: the accessor indexes a Python list,
  so \<open>-1\<close> reads the last element and \<^verbatim>\<open>PRINT B(-1)\<close> prints 9. Reading \<^verbatim>\<open>B(3)\<close> fails
  as the claim says, and so does the write \<^verbatim>\<open>LET B(-1) = 9\<close>, whose bounds are checked.
\<close>

theorem array_read_negative_index:
  "map_option (\<lambda>r. (returned r, printed (state_of r)))
     (load_lines no_host 6 [''DIM B(2)'', ''LET B(2) = 9'', ''PRINT B(2)'', ''PRINT B(-1)'']
        (init_interp Map.empty))
     = Some (True, [Out ''9'', Out ''9''])
   \<and> map_option raised_error
     (load_lines no_host 6 [''DIM B(2)'', ''PRINT B(3)''] (init_interp Map.empty))
     = Some (Some (ExpressionError ''B(3)'' (IndexOutOfBounds CHR ''B'')))
   \<and> map_option raised_error
     (load_lines no_host 6 [''DIM B(2)'', ''LET B(-1) = 9''] (init_interp Map.empty))
     = Some (Some (ArrayIndexOutOfBounds CHR ''B'' (- 1)))"
  by code_simp

text \<open>
  Claim C6. With the stored program \<^verbatim>\<open>10 LET A = 1\<close>, \<^verbatim>\<open>20 IF A = 1 THEN 40\<close>,
  \<^verbatim>\<open>30 LET A = 99\<close>, \<^verbatim>\<open>40 PRINT A\<close> (and \<open>A\<close> not bound as an array), a run from line
  10 returns, given fuel for its five calls, having printed exactly 1 and left \<open>A = 1\<close>:
  line 30 is skipped. In general an \<^verbatim>\<open>IF\<close> whose condition is false moves on to the next
  index, and one whose condition is true does with its target what \<^verbatim>\<open>GOTO\<close> does
  (\<open>jump_to\<close>).
\<close>

theorem if_then_control_flow:
  assumes "program st = if_demo"
    and "arrays st CHR ''A'' = None"
    and "5 \<le> fuel"
  shows "execute_program ext fuel (Some 10) st
           = Some (Done (emit (Out ''1'') (st\<lparr>variables := (variables st)(CHR ''A'' := 1)\<rparr>)))
     \<and> (pc < length lines \<and> map_of (program s) (lines ! pc) = Some stmt
          \<and> command_of stmt = ''IF'' \<and> match_if (arg_of stmt) = Some (c, t) \<longrightarrow>
          (eval_condition ext s c = Inr False \<longrightarrow>
             run_loop ext (Suc m) lines pc s = run_loop ext m lines (pc + 1) s)
        \<and> (eval_condition ext s c = Inr True \<and> eval_expression ext s t = Inr target \<longrightarrow>
             loop_step ext lines pc s = jump_to lines target s))"
proof (intro conjI impI)
  from assms(3) have "\<exists>n. fuel = Suc (Suc (Suc (Suc (Suc n))))" by presburger
  then obtain n where "fuel = Suc (Suc (Suc (Suc (Suc n))))" ..
  with run_prog6 [OF assms(1,2), of ext n]
  show "execute_program ext fuel (Some 10) st
           = Some (Done (emit (Out ''1'') (st\<lparr>variables := (variables st)(CHR ''A'' := 1)\<rparr>)))"
    by (simp only:)
next
  assume h: "pc < length lines \<and> map_of (program s) (lines ! pc) = Some stmt
          \<and> command_of stmt = ''IF'' \<and> match_if (arg_of stmt) = Some (c, t)"
    and f: "eval_condition ext s c = Inr False"
  then have "loop_step ext lines pc s = Jumps (pc + 1)" by (simp add: loop_step_alt)
  with h show "run_loop ext (Suc m) lines pc s = run_loop ext m lines (pc + 1) s" by simp
next
  assume h: "pc < length lines \<and> map_of (program s) (lines ! pc) = Some stmt
          \<and> command_of stmt = ''IF'' \<and> match_if (arg_of stmt) = Some (c, t)"
    and f: "eval_condition ext s c = Inr True \<and> eval_expression ext s t = Inr target"
  then show "loop_step ext lines pc s = jump_to lines target s" by (simp add: loop_step_alt)
qed

theorem if_then_control_flow_witness:
  "execute_program no_host 5 (Some 10) ((init_interp Map.empty)\<lparr>program := if_demo\<rparr>)
     = Some (Done (emit (Out ''1'')
          ((init_interp Map.empty)\<lparr>program := if_demo\<rparr>
             \<lparr>variables := (variables ((init_interp Map.empty)\<lparr>program := if_demo\<rparr>))
                                (CHR ''A'' := 1)\<rparr>)))
   \<and> run_loop no_host (Suc 1) [10, 20, 30, 40] 1 ((init_interp Map.empty)\<lparr>program := if_demo\<rparr>)
     = run_loop no_host 1 [10, 20, 30, 40] (1 + 1) ((init_interp Map.empty)\<lparr>program := if_demo\<rparr>)"
proof -
  let ?st = "(init_interp Map.empty)\<lparr>program := if_demo\<rparr>"
  have p: "program ?st = if_demo" by simp
  have a: "arrays ?st CHR ''A'' = None" by (simp add: init_interp_def)
  have c: "command_of ''IF A = 1 THEN 40'' = ''IF''" "arg_of ''IF A = 1 THEN 40'' = ''A = 1 THEN 40''"
    "match_if ''A = 1 THEN 40'' = Some (''A = 1'', ''40'')"
    by code_simp+
  have f: "eval_condition no_host ?st ''A = 1'' = Inr False"
    using eval_cond_A_eq [OF a, of no_host] by (simp add: init_interp_def)
  have h: "(1::nat) < length [10, 20, 30, 40 :: int]
          \<and> map_of (program ?st) ([10, 20, 30, 40] ! 1) = Some ''IF A = 1 THEN 40''
          \<and> command_of ''IF A = 1 THEN 40'' = ''IF''
          \<and> match_if (arg_of ''IF A = 1 THEN 40'') = Some (''A = 1'', ''40'')"
    by (simp add: c if_demo_def)
  from if_then_control_flow [OF p a order_refl, of no_host 1 "[10, 20, 30, 40]" ?st "''IF A = 1 THEN 40''" "''A = 1''" "''40''" 1] h f
  show ?thesis by blast
qed



text \<open>
  Claim C8, as amended. \<^verbatim>\<open>LIST\<close> leaves the program store unchanged. A run leaves it
  unchanged when no stored statement is a \<^verbatim>\<open>NEW\<close> or a \<^verbatim>\<open>LOAD\<close>: a stored statement
  goes through the same dispatch as a direct one, so a stored \<^verbatim>\<open>NEW\<close> or \<^verbatim>\<open>LOAD\<close>
  changes the store during the run. With such a store, no direct statement other than
  \<^verbatim>\<open>NEW\<close> and \<^verbatim>\<open>LOAD\<close> changes it.
\<close>

theorem list_and_run_keep_program:
  "program (cmd_list st) = program st
   \<and> execute_statement ext (Suc n) ''LIST'' st = Some (Done (cmd_list st))
   \<and> (calm_store (program st) \<longrightarrow>
        (execute_program ext n start st = Some r \<longrightarrow> program (state_of r) = program st)
      \<and> (execute_statement ext n ''RUN'' st = Some r \<longrightarrow> program (state_of r) = program st)
      \<and> (command_of stmt \<noteq> ''NEW'' \<and> command_of stmt \<noteq> ''LOAD''
           \<and> execute_statement ext n stmt st = Some r \<longrightarrow> program (state_of r) = program st))"
proof (intro conjI impI)
  show "program (cmd_list st) = program st" by (simp add: cmd_list_def)
next
  have c: "command_of ''LIST'' = ''LIST''" by code_simp
  show "execute_statement ext (Suc n) ''LIST'' st = Some (Done (cmd_list st))"
    by (simp add: dispatch_statement_alt c)
next
  assume "calm_store (program st)" and "execute_program ext n start st = Some r"
  then show "program (state_of r) = program st"
    using run_keeps_program [of ext n] by blast
next
  have c: "command_of ''RUN'' = ''RUN''" by code_simp
  assume "calm_store (program st)" and "execute_statement ext n ''RUN'' st = Some r"
  moreover have "command_of ''RUN'' \<noteq> ''NEW''" "command_of ''RUN'' \<noteq> ''LOAD''"
    by (simp_all add: c)
  ultimately show "program (state_of r) = program st"
    using run_keeps_program [of ext n] by blast
next
  assume "calm_store (program st)"
    and "command_of stmt \<noteq> ''NEW'' \<and> command_of stmt \<noteq> ''LOAD''
           \<and> execute_statement ext n stmt st = Some r"
  then show "program (state_of r) = program st"
    using run_keeps_program [of ext n] by blast
qed

theorem list_and_run_keep_program_witness:
  "calm_store (program ((init_interp Map.empty)\<lparr>program := [(10, ''PRINT 1'')]\<rparr>))
   \<and> execute_program no_host 3 None ((init_interp Map.empty)\<lparr>program := [(10, ''PRINT 1'')]\<rparr>)
       = Some (Done (emit (Out ''1'') ((init_interp Map.empty)\<lparr>program := [(10, ''PRINT 1'')]\<rparr>)))
   \<and> program (state_of (Done (emit (Out ''1'') ((init_interp Map.empty)\<lparr>program := [(10, ''PRINT 1'')]\<rparr>))))
       = program ((init_interp Map.empty)\<lparr>program := [(10, ''PRINT 1'')]\<rparr>)"
proof -
  let ?st = "(init_interp Map.empty)\<lparr>program := [(10, ''PRINT 1'')]\<rparr>"
  have c: "command_of ''PRINT 1'' = ''PRINT''" by code_simp
  have calm: "calm_store (program ?st)" by (simp add: calm_store_def c)
  have "program ?st = [(10, ''PRINT 1'')]" by simp
  from run_print_1 [OF this, of no_host 0]
  have run: "execute_program no_host 3 None ?st = Some (Done (emit (Out ''1'') ?st))"
    by (simp only: numeral_3_eq_3)
  from list_and_run_keep_program [where st = ?st and ext = no_host and n = 3 and start = None
      and r = "Done (emit (Out ''1'') ?st)" and stmt = "''RUN''"] calm run
  show ?thesis by blast
qed

theorem list_and_run_keep_program_counterexample:
  "map_option (program \<circ> state_of)
     (execute_program no_host 3 None ((init_interp Map.empty)\<lparr>program := [(10, ''NEW'')]\<rparr>))
     = Some []"
  by code_simp



end
